(* ===== verification/Prelude.thy ===== *)
theory Prelude
  imports Main "HOL-Library.Word"
begin

text \<open>
  Shared vocabulary of the development: machine integers at their width, byte slices, and
  the result of running a Rust function.

  A Rust call ends in one of four ways, the constructors of \<open>outcome\<close>: it returns a value
  (\<open>Ok\<close>, also used for functions that do not return a \<open>Result\<close>), it returns a typed error
  (\<open>Err\<close>), it panics (an index or slice out of range, an arithmetic overflow, a capacity
  overflow), or it does not return at all. Indexing, slicing and plain \<open>usize\<close> additions of
  the source are written with the operations of this theory, which produce \<open>Panic\<close> where
  Rust does; \<open>yields m Q\<close> is the total-correctness judgement: \<open>m\<close> comes back without a
  panic, and an \<open>Ok\<close> result satisfies \<open>Q\<close>.
\<close>

named_theorems outcome_wp "rewrite rules of the judgement yields"
named_theorems le_simps "little-endian coding facts"

type_synonym u8 = "8 word"
type_synonym u16 = "16 word"
type_synonym u32 = "32 word"
type_synonym u64 = "64 word"
type_synonym bytes = "u8 list"

section \<open>Outcomes of a call\<close>

datatype ('e, 'a) outcome = Ok 'a | Err 'e | Panic | Diverge

text \<open>The \<open>?\<close> operator and sequencing: the first non-\<open>Ok\<close> outcome is the outcome.\<close>

fun bind :: "('e, 'a) outcome \<Rightarrow> ('a \<Rightarrow> ('e, 'b) outcome) \<Rightarrow> ('e, 'b) outcome" where
  "bind (Ok x) f = f x"
| "bind (Err e) f = Err e"
| "bind Panic f = Panic"
| "bind Diverge f = Diverge"

text \<open>
  \<open>match m { Ok(x) => f(x), Err(_) => return d }\<close>: a typed error is absorbed, a panic is not.
\<close>

fun or_return :: "('e, 'a) outcome \<Rightarrow> 'b \<Rightarrow> ('a \<Rightarrow> ('f, 'b) outcome) \<Rightarrow> ('f, 'b) outcome" where
  "or_return (Ok x) d f = f x"
| "or_return (Err e) d f = Ok d"
| "or_return Panic d f = Panic"
| "or_return Diverge d f = Diverge"

text \<open>\<open>opt.ok_or(e)\<close>\<close>

definition ok_or :: "'a option \<Rightarrow> 'e \<Rightarrow> ('e, 'a) outcome" where
  "ok_or x e = (case x of None \<Rightarrow> Err e | Some v \<Rightarrow> Ok v)"

definition yields :: "('e, 'a) outcome \<Rightarrow> ('a \<Rightarrow> bool) \<Rightarrow> bool" where
  "yields m Q = (case m of Ok x \<Rightarrow> Q x | Err _ \<Rightarrow> True | Panic \<Rightarrow> False | Diverge \<Rightarrow> False)"

abbreviation returns :: "('e, 'a) outcome \<Rightarrow> bool" where
  "returns m \<equiv> yields m (\<lambda>_. True)"

lemma yields_outcome [simp, outcome_wp]:
  "yields (Ok x) Q = Q x" "yields (Err e) Q = True"
  "yields Panic Q = False" "yields Diverge Q = False"
  by (simp_all add: yields_def)

lemma yields_bind [outcome_wp]: "yields (bind m f) Q = yields m (\<lambda>x. yields (f x) Q)"
  by (cases m) simp_all

lemma yields_or_return [outcome_wp]:
  "yields (or_return m d f) Q = (yields m (\<lambda>x. yields (f x) Q) \<and> ((\<exists>e. m = Err e) \<longrightarrow> Q d))"
  by (cases m) auto

lemma yields_ok_or [outcome_wp]: "yields (ok_or x e) Q = (\<forall>v. x = Some v \<longrightarrow> Q v)"
  by (cases x) (simp_all add: ok_or_def)

lemma yields_mono: "yields m P \<Longrightarrow> (\<And>x. m = Ok x \<Longrightarrow> P x \<Longrightarrow> Q x) \<Longrightarrow> yields m Q"
  by (cases m) simp_all

lemma yields_OkD: "yields m Q \<Longrightarrow> m = Ok x \<Longrightarrow> Q x"
  by simp

lemma returns_cases: "returns m \<longleftrightarrow> (\<exists>x. m = Ok x) \<or> (\<exists>e. m = Err e)"
  by (cases m) simp_all

lemma bind_cong [fundef_cong]:
  "m = m' \<Longrightarrow> (\<And>x. m' = Ok x \<Longrightarrow> f x = f' x) \<Longrightarrow> bind m f = bind m' f'"
  by (cases m') simp_all

lemma or_return_cong [fundef_cong]:
  "m = m' \<Longrightarrow> d = d' \<Longrightarrow> (\<And>x. m' = Ok x \<Longrightarrow> f x = f' x) \<Longrightarrow>
   or_return m d f = or_return m' d' f'"
  by (cases m') simp_all

lemma bind_eq_Ok: "bind m f = Ok y \<longleftrightarrow> (\<exists>x. m = Ok x \<and> f x = Ok y)"
  by (cases m) simp_all

lemma ok_or_eq_Ok [simp]: "ok_or x e = Ok v \<longleftrightarrow> x = Some v"
  by (cases x) (simp_all add: ok_or_def)

lemma ok_or_simps [simp]: "ok_or (Some v) e = Ok v" "ok_or None e = Err e"
  by (simp_all add: ok_or_def)

text \<open>The value of an outcome, if it is one.\<close>

fun ok_part :: "('e, 'a) outcome \<Rightarrow> 'a option" where
  "ok_part (Ok x) = Some x"
| "ok_part _ = None"

lemma ok_part_eq_Some [simp]: "ok_part m = Some x \<longleftrightarrow> m = Ok x"
  by (cases m) simp_all

lemma or_return_ok_part:
  "returns m \<Longrightarrow> or_return m d f = (case ok_part m of None \<Rightarrow> Ok d | Some x \<Rightarrow> f x)"
  by (cases m) simp_all

section \<open>Slices\<close>

text \<open>\<open>&xs[a..b]\<close> panics when \<open>a > b\<close> or \<open>b > xs.len()\<close>; \<open>xs.get(a..b)\<close> is \<open>None\<close> there.\<close>

definition get_range :: "'a list \<Rightarrow> nat \<Rightarrow> nat \<Rightarrow> 'a list option" where
  "get_range xs a b = (if a \<le> b \<and> b \<le> length xs then Some (take (b - a) (drop a xs)) else None)"

definition slice :: "'a list \<Rightarrow> nat \<Rightarrow> nat \<Rightarrow> ('e, 'a list) outcome" where
  "slice xs a b = (case get_range xs a b of Some ys \<Rightarrow> Ok ys | None \<Rightarrow> Panic)"

text \<open>\<open>[xs[i], xs[j], \<dots>]\<close>: every index is checked, any index out of range panics.\<close>

fun idx :: "'a list \<Rightarrow> nat list \<Rightarrow> ('e, 'a list) outcome" where
  "idx xs [] = Ok []"
| "idx xs (i # is) =
     (if i < length xs then bind (idx xs is) (\<lambda>ys. Ok (xs ! i # ys)) else Panic)"

lemma slice_Ok: "a \<le> b \<Longrightarrow> b \<le> length xs \<Longrightarrow> slice xs a b = Ok (take (b - a) (drop a xs))"
  by (simp add: slice_def get_range_def)

lemma yields_slice [outcome_wp]:
  "yields (slice xs a b) Q \<longleftrightarrow> a \<le> b \<and> b \<le> length xs \<and> Q (take (b - a) (drop a xs))"
  by (auto simp: slice_def get_range_def split: if_splits)

lemma get_range_eq_Some:
  "get_range xs a b = Some ys \<longleftrightarrow> a \<le> b \<and> b \<le> length xs \<and> ys = take (b - a) (drop a xs)"
  by (auto simp: get_range_def)

lemma idx_Ok: "\<forall>i \<in> set is. i < length xs \<Longrightarrow> idx xs is = Ok (map ((!) xs) is)"
  by (induction "is") simp_all

lemma yields_idx [outcome_wp]:
  "yields (idx xs is) Q \<longleftrightarrow> (\<forall>i \<in> set is. i < length xs) \<and> Q (map ((!) xs) is)"
proof (induction "is" arbitrary: Q)
  case Nil
  show ?case by simp
next
  case (Cons i "is")
  then show ?case by (auto simp: yields_bind)
qed

declare idx.simps [simp del]

section \<open>Fixed-width little-endian integers\<close>

definition byte_of :: "nat \<Rightarrow> u8" where
  "byte_of n = word_of_nat n"

fun from_le :: "bytes \<Rightarrow> nat" where
  "from_le [] = 0"
| "from_le (b # bs) = unat b + 256 * from_le bs"

definition u16_from_le_bytes :: "bytes \<Rightarrow> u16" where
  "u16_from_le_bytes bs = word_of_nat (from_le bs)"

definition u32_from_le_bytes :: "bytes \<Rightarrow> u32" where
  "u32_from_le_bytes bs = word_of_nat (from_le bs)"

definition u64_from_le_bytes :: "bytes \<Rightarrow> u64" where
  "u64_from_le_bytes bs = word_of_nat (from_le bs)"

text \<open>The inverse direction, \<open>x.to_le_bytes()\<close> over \<open>n\<close> bytes.\<close>

fun to_le :: "nat \<Rightarrow> nat \<Rightarrow> bytes" where
  "to_le 0 x = []"
| "to_le (Suc n) x = byte_of (x mod 256) # to_le n (x div 256)"

lemma length_to_le [simp]: "length (to_le n x) = n"
  by (induction n arbitrary: x) simp_all

lemma unat_byte_of: "unat (byte_of n) = n mod 256"
  by (simp add: byte_of_def unat_of_nat)

lemma unat_byte [simp]: "n < 256 \<Longrightarrow> unat (byte_of n) = n"
  by (simp add: unat_byte_of)

lemma byte_of_unat [simp]: "byte_of (unat b) = b"
  by (simp add: byte_of_def)

lemma byte_eqI: "unat b = n \<Longrightarrow> byte_of n = b"
  by auto

lemma u8_unat_less [simp]: "unat (b :: u8) < 256"
  using unsigned_less [of b] by simp

lemma from_le_to_le [le_simps]: "from_le (to_le n x) = x mod 256 ^ n"
proof (induction n arbitrary: x)
  case 0
  show ?case by simp
next
  case (Suc n)
  have "x mod 256 ^ Suc n = x mod 256 + 256 * (x div 256 mod 256 ^ n)"
    by (simp add: mod_mult2_eq)
  with Suc show ?case by simp
qed

lemma from_le_less: "from_le bs < 256 ^ length bs"
proof (induction bs)
  case Nil
  show ?case by simp
next
  case (Cons b bs)
  define p where "p = (256::nat) ^ length bs"
  have "unat b < 256" by simp
  moreover have "Suc (from_le bs) \<le> p" using Cons.IH by (simp add: p_def)
  ultimately have "unat b + 256 * from_le bs < 256 * p" by linarith
  then show ?case by (simp add: p_def)
qed

lemma to_le_from_le [le_simps]: "length bs = n \<Longrightarrow> to_le n (from_le bs) = bs"
  by (induction bs arbitrary: n) (auto simp: div_mult2_eq)

lemma u64_from_to_le [le_simps]: "u64_from_le_bytes (to_le 8 (unat x)) = x"
proof -
  have "unat x < 2 ^ 64" using unsigned_less [of x] by simp
  then show ?thesis by (simp add: u64_from_le_bytes_def from_le_to_le)
qed

lemma u32_from_to_le [le_simps]: "u32_from_le_bytes (to_le 4 (unat x)) = x"
proof -
  have "unat x < 2 ^ 32" using unsigned_less [of x] by simp
  then show ?thesis by (simp add: u32_from_le_bytes_def from_le_to_le)
qed

lemma u32_from_to_le_nat [le_simps]: "n < 2 ^ 32 \<Longrightarrow> unat (u32_from_le_bytes (to_le 4 n)) = n"
  by (simp add: u32_from_le_bytes_def from_le_to_le unat_of_nat)

lemma u16_from_to_le_nat [le_simps]: "n < 2 ^ 16 \<Longrightarrow> unat (u16_from_le_bytes (to_le 2 n)) = n"
  by (simp add: u16_from_le_bytes_def from_le_to_le unat_of_nat)

section \<open>Lists\<close>

lemma take_append_exact [simp]: "length xs = n \<Longrightarrow> take n (xs @ ys) = xs"
  by simp

lemma drop_append_exact [simp]: "length xs = n \<Longrightarrow> drop n (xs @ ys) = ys"
  by simp

text \<open>\<open>iter().position(p)\<close>\<close>

fun position :: "('a \<Rightarrow> bool) \<Rightarrow> 'a list \<Rightarrow> nat option" where
  "position p [] = None"
| "position p (x # xs) = (if p x then Some 0 else map_option Suc (position p xs))"

lemma position_None: "position p xs = None \<longleftrightarrow> (\<forall>x \<in> set xs. \<not> p x)"
  by (induction xs) auto

lemma position_SomeD:
  "position p xs = Some n \<Longrightarrow> n < length xs \<and> p (xs ! n) \<and> (\<forall>x \<in> set (take n xs). \<not> p x)"
  by (induction xs arbitrary: n) (auto split: if_splits)

lemma position_append:
  "\<forall>x \<in> set xs. \<not> p x \<Longrightarrow> p y \<Longrightarrow> position p (xs @ y # ys) = Some (length xs)"
  by (induction xs) auto

section \<open>Codecs\<close>

text \<open>
  The contract of an encoder and a decoder of the same data: decoding an encoding of a
  valid value gives it back. An exact codec also re-encodes whatever it decodes, so that the
  decoder accepts exactly the encodings.
\<close>

locale codec =
  fixes enc :: "'a \<Rightarrow> 'b"
    and dec :: "'b \<Rightarrow> 'a option"
    and valid :: "'a \<Rightarrow> bool"
  assumes dec_enc: "valid x \<Longrightarrow> dec (enc x) = Some x"
begin

lemma enc_inject: "valid x \<Longrightarrow> valid y \<Longrightarrow> enc x = enc y \<longleftrightarrow> x = y"
  using dec_enc by (metis option.inject)

end

locale exact_codec = codec +
  assumes dec_sound: "dec b = Some x \<Longrightarrow> valid x \<and> enc x = b"
begin

lemma dec_iff: "dec b = Some x \<longleftrightarrow> valid x \<and> b = enc x"
  using dec_enc dec_sound by blast

lemma dec_None_iff: "dec b = None \<longleftrightarrow> (\<forall>x. valid x \<longrightarrow> b \<noteq> enc x)"
  using dec_iff by (metis not_None_eq)

end

end
