(* ===== verification/Rust_Text.thy ===== *)
theory Rust_Text
  imports Prelude
begin

text \<open>
  Rust text, as far as the program uses it. A \<open>char\<close> is its code point, a natural number,
  and a \<open>String\<close> the list of its chars (\<open>rstring\<close>); every string a Rust program can hold
  satisfies \<open>scalars\<close>, which the theorems about decoders establish for their results.
  Modelled from the standard library: \<open>std::str::from_utf8\<close>, \<open>String::from_utf8_lossy\<close>
  (one U+FFFD for each maximal ill-formed subsequence), the UTF-8 bytes a string is written
  as, \<open>char::decode_utf16\<close>, and the integer formats \<open>{}\<close>, \<open>{:02x}\<close>, \<open>{:04x}\<close> and
  \<open>{:#010x}\<close>.
\<close>

type_synonym rstring = "nat list"

definition is_scalar :: "nat \<Rightarrow> bool" where
  "is_scalar c \<longleftrightarrow> c < 0xD800 \<or> (0xE000 \<le> c \<and> c < 0x110000)"

definition scalars :: "rstring \<Rightarrow> bool" where
  "scalars s \<longleftrightarrow> (\<forall>c \<in> set s. is_scalar c)"

text \<open>A string literal of the source, ASCII throughout.\<close>

definition lit :: "string \<Rightarrow> rstring" where
  "lit s = map of_char s"

abbreviation replacement_char :: nat where
  "replacement_char \<equiv> 0xFFFD"

lemma scalars_simps [simp]:
  "scalars []" "scalars (c # s) = (is_scalar c \<and> scalars s)"
  "scalars (s @ t) = (scalars s \<and> scalars t)"
  by (auto simp: scalars_def)

lemma is_scalar_small [simp]: "c < 0xD800 \<Longrightarrow> is_scalar c"
  by (simp add: is_scalar_def)

lemma is_scalar_replacement [simp]: "is_scalar replacement_char"
  by (simp add: is_scalar_def)

lemma of_char_less_256: "(of_char c :: nat) < 256"
  by (cases c) (simp add: of_char_def)

lemma scalars_lit [simp]: "scalars (lit s)"
proof -
  have "is_scalar (of_char c)" for c
    using of_char_less_256 [of c] unfolding is_scalar_def by linarith
  then show ?thesis by (simp add: scalars_def lit_def)
qed

section \<open>UTF-8\<close>

definition is_cont :: "u8 \<Rightarrow> bool" where
  "is_cont b \<longleftrightarrow> 0x80 \<le> unat b \<and> unat b \<le> 0xBF"

text \<open>The second byte of a three and of a four byte sequence, by its first byte.\<close>

definition second_of_3 :: "nat \<Rightarrow> u8 \<Rightarrow> bool" where
  "second_of_3 f b \<longleftrightarrow> is_cont b \<and> (f = 0xE0 \<longrightarrow> 0xA0 \<le> unat b) \<and> (f = 0xED \<longrightarrow> unat b \<le> 0x9F)"

definition second_of_4 :: "nat \<Rightarrow> u8 \<Rightarrow> bool" where
  "second_of_4 f b \<longleftrightarrow> is_cont b \<and> (f = 0xF0 \<longrightarrow> 0x90 \<le> unat b) \<and> (f = 0xF4 \<longrightarrow> unat b \<le> 0x8F)"

text \<open>
  The first char of a byte string and its length, or \<open>None\<close> and the length of the
  ill-formed subsequence the decoder gives up on.
\<close>

fun utf8_next :: "bytes \<Rightarrow> nat option \<times> nat" where
  "utf8_next [] = (None, 0)"
| "utf8_next (b0 # r0) =
     (let f = unat b0 in
      if f < 0x80 then (Some f, 1)
      else if 0xC2 \<le> f \<and> f \<le> 0xDF then
        (case r0 of [] \<Rightarrow> (None, 1)
         | b1 # r1 \<Rightarrow>
             if is_cont b1 then (Some ((f - 0xC0) * 64 + (unat b1 - 0x80)), 2) else (None, 1))
      else if 0xE0 \<le> f \<and> f \<le> 0xEF then
        (case r0 of [] \<Rightarrow> (None, 1)
         | b1 # r1 \<Rightarrow>
             if \<not> second_of_3 f b1 then (None, 1)
             else (case r1 of [] \<Rightarrow> (None, 2)
               | b2 # r2 \<Rightarrow>
                   if is_cont b2
                   then (Some ((f - 0xE0) * 4096 + (unat b1 - 0x80) * 64 + (unat b2 - 0x80)), 3)
                   else (None, 2)))
      else if 0xF0 \<le> f \<and> f \<le> 0xF4 then
        (case r0 of [] \<Rightarrow> (None, 1)
         | b1 # r1 \<Rightarrow>
             if \<not> second_of_4 f b1 then (None, 1)
             else (case r1 of [] \<Rightarrow> (None, 2)
               | b2 # r2 \<Rightarrow>
                   if \<not> is_cont b2 then (None, 2)
                   else (case r2 of [] \<Rightarrow> (None, 3)
                     | b3 # r3 \<Rightarrow>
                         if is_cont b3
                         then (Some ((f - 0xF0) * 262144 + (unat b1 - 0x80) * 4096
                                 + (unat b2 - 0x80) * 64 + (unat b3 - 0x80)), 4)
                         else (None, 3))))
      else (None, 1))"

lemma utf8_next_pos: "0 < snd (utf8_next (b # bs))"
  by (simp add: Let_def split: list.splits)

lemma utf8_next_drop: "(y, n) = utf8_next (b # bs) \<Longrightarrow> length (drop n (b # bs)) < length (b # bs)"
  using utf8_next_pos [of b bs] by (cases "utf8_next (b # bs)") auto

declare utf8_next.simps [simp del]

function from_utf8 :: "bytes \<Rightarrow> rstring option" where
  "from_utf8 [] = Some []"
| "from_utf8 (b # bs) =
     (case utf8_next (b # bs) of
        (Some c, n) \<Rightarrow> map_option ((#) c) (from_utf8 (drop n (b # bs)))
      | (None, n) \<Rightarrow> None)"
  by pat_completeness auto
termination
  by (relation "measure length") (auto dest: utf8_next_drop simp del: drop_Suc_Cons)

function from_utf8_lossy :: "bytes \<Rightarrow> rstring" where
  "from_utf8_lossy [] = []"
| "from_utf8_lossy (b # bs) =
     (case utf8_next (b # bs) of
        (Some c, n) \<Rightarrow> c # from_utf8_lossy (drop n (b # bs))
      | (None, n) \<Rightarrow> replacement_char # from_utf8_lossy (drop n (b # bs)))"
  by pat_completeness auto
termination
  by (relation "measure length") (auto dest: utf8_next_drop)

fun utf8_char :: "nat \<Rightarrow> bytes" where
  "utf8_char c =
     (if c < 0x80 then [byte_of c]
      else if c < 0x800 then [byte_of (0xC0 + c div 64), byte_of (0x80 + c mod 64)]
      else if c < 0x10000 then
        [byte_of (0xE0 + c div 4096), byte_of (0x80 + c div 64 mod 64),
         byte_of (0x80 + c mod 64)]
      else
        [byte_of (0xF0 + c div 262144), byte_of (0x80 + c div 4096 mod 64),
         byte_of (0x80 + c div 64 mod 64), byte_of (0x80 + c mod 64)])"

text \<open>The bytes \<open>write!\<close> sends for a string, and \<open>as_bytes()\<close>.\<close>

definition utf8_encode :: "rstring \<Rightarrow> bytes" where
  "utf8_encode s = concat (map utf8_char s)"

declare utf8_char.simps [simp del]

lemma utf8_encode_simps [simp]:
  "utf8_encode [] = []" "utf8_encode (c # s) = utf8_char c @ utf8_encode s"
  "utf8_encode (s @ t) = utf8_encode s @ utf8_encode t"
  by (simp_all add: utf8_encode_def)

lemma utf8_char_nonempty: "utf8_char c \<noteq> []"
  by (simp add: utf8_char.simps)

text \<open>Base 64 digits of a code point, the payload of the bytes of its encoding.\<close>

lemma base64_digits3: "c div 4096 * 4096 + c div 64 mod 64 * 64 + c mod 64 = (c::nat)"
proof -
  have "c div 4096 = c div 64 div 64" by (simp flip: div_mult2_eq)
  then have "c div 4096 * 64 + c div 64 mod 64 = c div 64" by simp
  then have "(c div 4096 * 64 + c div 64 mod 64) * 64 + c mod 64 = c" by simp
  then show ?thesis by (simp add: algebra_simps)
qed

lemma base64_digits4:
  "c div 262144 * 262144 + c div 4096 mod 64 * 4096 + c div 64 mod 64 * 64 + c mod 64 = (c::nat)"
proof -
  have "c div 262144 = c div 4096 div 64" by (simp flip: div_mult2_eq)
  then have "c div 262144 * 64 + c div 4096 mod 64 = c div 4096" by simp
  with base64_digits3 [of c]
  have "(c div 262144 * 64 + c div 4096 mod 64) * 4096 + c div 64 mod 64 * 64 + c mod 64 = c"
    by simp
  then show ?thesis by (simp add: algebra_simps)
qed

lemma utf8_next_encode:
  assumes "is_scalar c"
  shows "utf8_next (utf8_char c @ rest) = (Some c, length (utf8_char c))"
proof -
  consider "c < 0x80" | "0x80 \<le> c" "c < 0x800" | "0x800 \<le> c" "c < 0x10000"
    | "0x10000 \<le> c" "c < 0x110000"
    using assms by (fastforce simp: is_scalar_def)
  then show ?thesis
  proof cases
    case 1
    then show ?thesis by (simp add: utf8_char.simps utf8_next.simps)
  next
    case 2
    then have "c div 64 < 32" "2 \<le> c div 64" by auto
    with 2 show ?thesis
      by (simp add: utf8_char.simps utf8_next.simps Let_def is_cont_def)
  next
    case 3
    obtain x y z where d: "c div 4096 = x" "c div 64 mod 64 = y" "c mod 64 = z"
      "c = x * 4096 + y * 64 + z" "y < 64" "z < 64"
      using that [OF refl refl refl base64_digits3 [symmetric]] by simp
    with 3 assms have "x < 16" "x = 0 \<Longrightarrow> 32 \<le> y" "x = 13 \<Longrightarrow> y \<le> 31"
      unfolding is_scalar_def by linarith+
    with d(5,6) 3 show ?thesis
      by (simp add: utf8_char.simps d(1-3) utf8_next.simps Let_def is_cont_def second_of_3_def)
         (simp add: d(4))
  next
    case 4
    obtain w x y z where d: "c div 262144 = w" "c div 4096 mod 64 = x" "c div 64 mod 64 = y"
      "c mod 64 = z" "c = w * 262144 + x * 4096 + y * 64 + z" "x < 64" "y < 64" "z < 64"
      using that [OF refl refl refl refl base64_digits4 [symmetric]] by simp
    with 4 have "w \<le> 4" "w = 0 \<Longrightarrow> 16 \<le> x" "w = 4 \<Longrightarrow> x < 16"
      by linarith+
    with d(6-8) 4 show ?thesis
      by (simp add: utf8_char.simps d(1-4) utf8_next.simps Let_def is_cont_def second_of_4_def)
         (simp add: d(5))
  qed
qed

text \<open>Conversely, what the decoder accepts is the encoding of the char it reports.\<close>

lemma base64_digitsI:
  assumes "y < 64" "z < (64::nat)"
  shows "(x * 4096 + y * 64 + z) div 4096 = x" "(x * 4096 + y * 64 + z) div 64 mod 64 = y"
    "(x * 64 + z) div 64 = x" "(x * 64 + z) mod 64 = z"
proof -
  have "(x * 4096 + y * 64 + z) div 64 = x * 64 + y" using assms by auto
  moreover from this have "(x * 4096 + y * 64 + z) div 4096 = (x * 64 + y) div 64"
    by (simp flip: div_mult2_eq)
  ultimately show "(x * 4096 + y * 64 + z) div 4096 = x" "(x * 4096 + y * 64 + z) div 64 mod 64 = y"
    using assms by auto
qed (use assms in auto)

lemma is_contD: "is_cont b \<Longrightarrow> \<exists>p. p < 64 \<and> unat b = 0x80 + p \<and> b = byte_of (0x80 + p)"
  by (rule exI [of _ "unat b - 0x80"]) (auto simp: is_cont_def)

lemma utf8_next_sound:
  assumes "utf8_next bs = (Some c, n)"
  shows "is_scalar c \<and> n \<le> length bs \<and> utf8_char c = take n bs"
proof (cases bs)
  case Nil
  with assms show ?thesis by (simp add: utf8_next.simps)
next
  case (Cons b0 r0)
  define f where "f = unat b0"
  have b0: "b0 = byte_of f" by (simp add: f_def)
  consider "f < 0x80" | "0xC2 \<le> f" "f \<le> 0xDF" | "0xE0 \<le> f" "f \<le> 0xEF" | "0xF0 \<le> f" "f \<le> 0xF4"
    using assms Cons by (fastforce simp: utf8_next.simps f_def Let_def split: if_splits)
  then show ?thesis
  proof cases
    case 1
    with assms Cons show ?thesis by (auto simp: utf8_next.simps utf8_char.simps f_def)
  next
    case 2
    with assms Cons obtain b1 r1 where r: "r0 = b1 # r1" "is_cont b1" and n: "n = 2"
      and c: "c = (f - 0xC0) * 64 + (unat b1 - 0x80)"
      by (auto simp: utf8_next.simps f_def Let_def split: list.splits if_splits)
    from is_contD [OF r(2)] obtain p where p: "p < 64" "unat b1 = 0x80 + p" "b1 = byte_of (0x80 + p)"
      by blast
    define x where "x = f - 0xC0"
    have x: "f = 0xC0 + x" "2 \<le> x" "x < 32" using 2 by (auto simp: x_def)
    have "c = x * 64 + p" using c p(2) by (simp add: x_def)
    with x p(1) show ?thesis
      by (simp add: Cons r(1) n utf8_char.simps b0 p(3) base64_digitsI is_scalar_def)
  next
    case 3
    with assms Cons obtain b1 b2 r2 where r: "r0 = b1 # b2 # r2" "second_of_3 f b1" "is_cont b2"
      and n: "n = 3" and c: "c = (f - 0xE0) * 4096 + (unat b1 - 0x80) * 64 + (unat b2 - 0x80)"
      by (auto simp: utf8_next.simps f_def Let_def split: list.splits if_splits)
    from is_contD [OF r(3)] obtain q where q: "q < 64" "unat b2 = 0x80 + q" "b2 = byte_of (0x80 + q)"
      by blast
    from r(2) obtain p where p: "p < 64" "unat b1 = 0x80 + p" "b1 = byte_of (0x80 + p)"
      using is_contD [of b1] unfolding second_of_3_def by blast
    define x where "x = f - 0xE0"
    have x: "f = 0xE0 + x" "x < 16" "x = 0 \<Longrightarrow> 32 \<le> p" "x = 13 \<Longrightarrow> p < 32"
      using 3 r(2) p(2) by (auto simp: x_def second_of_3_def)
    have c': "c = x * 4096 + p * 64 + q" using c p(2) q(2) by (simp add: x_def)
    have "is_scalar c"
    proof (cases "x \<le> 13")
      case True
      then have "c < 0xD800" using x(4) p(1) q(1) unfolding c' by (cases "x = 13") auto
      then show ?thesis by simp
    next
      case False
      then have "0xE000 \<le> c" "c < 0x110000" using x(2) p(1) q(1) unfolding c' by linarith+
      then show ?thesis by (simp add: is_scalar_def)
    qed
    moreover have "0x800 \<le> c" "c < 0x10000"
      using x(2,3) p(1) q(1) unfolding c' by linarith+
    moreover have "c div 4096 = x" "c div 64 mod 64 = p" "c mod 64 = q"
      using base64_digitsI [OF p(1) q(1)] base64_digitsI(4) [OF p(1) q(1), of "x * 64 + p"]
      unfolding c' by (simp_all add: algebra_simps)
    ultimately show ?thesis
      by (simp add: Cons r(1) n utf8_char.simps b0 p(3) q(3) x(1))
  next
    case 4
    with assms Cons obtain b1 b2 b3 r3 where r: "r0 = b1 # b2 # b3 # r3" "second_of_4 f b1"
        "is_cont b2" "is_cont b3" and n: "n = 4"
      and c: "c = (f - 0xF0) * 262144 + (unat b1 - 0x80) * 4096 + (unat b2 - 0x80) * 64
        + (unat b3 - 0x80)"
      by (auto simp: utf8_next.simps f_def Let_def split: list.splits if_splits)
    from is_contD [OF r(3)] obtain q where q: "q < 64" "unat b2 = 0x80 + q" "b2 = byte_of (0x80 + q)"
      by blast
    from is_contD [OF r(4)] obtain s where s: "s < 64" "unat b3 = 0x80 + s" "b3 = byte_of (0x80 + s)"
      by blast
    from r(2) obtain p where p: "p < 64" "unat b1 = 0x80 + p" "b1 = byte_of (0x80 + p)"
      using is_contD [of b1] unfolding second_of_4_def by blast
    define x where "x = f - 0xF0"
    have x: "f = 0xF0 + x" "x \<le> 4" "x = 0 \<Longrightarrow> 16 \<le> p" "x = 4 \<Longrightarrow> p < 16"
      using 4 r(2) p(2) by (auto simp: x_def second_of_4_def)
    have c': "c = x * 262144 + p * 4096 + q * 64 + s" using c p(2) q(2) s(2) by (simp add: x_def)
    have "0x10000 \<le> c" "c < 0x110000" "is_scalar c"
      using x(2-) p(1) q(1) s(1) unfolding c' is_scalar_def by linarith+
    moreover have d: "c div 4096 = x * 64 + p" "c div 64 mod 64 = q" "c mod 64 = s"
      using base64_digitsI [OF q(1) s(1), of "x * 64 + p"]
        base64_digitsI(4) [OF q(1) s(1), of "(x * 64 + p) * 64 + q"]
      unfolding c' by (simp_all add: algebra_simps)
    moreover have "c div 262144 = c div 4096 div 64" by (simp flip: div_mult2_eq)
    then have "c div 262144 = x" "c div 4096 mod 64 = p"
      using p(1) unfolding d by simp_all
    ultimately show ?thesis
      by (simp add: Cons r(1) n utf8_char.simps b0 p(3) q(3) s(3) x(1))
  qed
qed

lemma from_utf8_encode: "scalars s \<Longrightarrow> from_utf8 (utf8_encode s) = Some s"
proof (induction s)
  case Nil
  show ?case by simp
next
  case (Cons c s)
  obtain b bs where b: "utf8_char c = b # bs" using utf8_char_nonempty by (meson list.exhaust)
  have "utf8_next (b # bs @ utf8_encode s) = (Some c, Suc (length bs))"
    using utf8_next_encode [of c "utf8_encode s"] Cons.prems b by simp
  with Cons b show ?case by simp
qed

lemma from_utf8_sound: "from_utf8 bs = Some s \<Longrightarrow> scalars s \<and> utf8_encode s = bs"
proof (induction bs arbitrary: s rule: from_utf8.induct)
  case 1
  then show ?case by simp
next
  case (2 b bs)
  from "2.prems" obtain c n t where nx: "utf8_next (b # bs) = (Some c, n)"
    and t: "from_utf8 (drop n (b # bs)) = Some t" and s: "s = c # t"
    by (auto split: prod.splits option.splits)
  have "scalars t \<and> utf8_encode t = drop n (b # bs)"
    by (rule "2.IH" [OF nx [symmetric] refl t])
  with utf8_next_sound [OF nx] s show ?case by (metis append_take_drop_id scalars_simps(2) utf8_encode_simps(2))
qed

text \<open>UTF-8 as an exact codec: \<open>from_utf8\<close> accepts the encodings of strings and nothing else.\<close>

interpretation utf8: exact_codec utf8_encode from_utf8 scalars
  by unfold_locales (use from_utf8_encode from_utf8_sound in auto)

lemma from_utf8_lossy_scalars: "scalars (from_utf8_lossy bs)"
proof (induction bs rule: from_utf8_lossy.induct)
  case (2 b bs)
  then show ?case by (auto dest: utf8_next_sound split: prod.splits option.splits)
qed simp

lemma from_utf8_lossy_valid: "from_utf8 bs = Some s \<Longrightarrow> from_utf8_lossy bs = s"
proof (induction bs arbitrary: s rule: from_utf8.induct)
  case (2 b bs)
  then show ?case by (auto split: prod.splits option.splits)
qed simp

section \<open>UTF-16\<close>

definition is_surrogate :: "u16 \<Rightarrow> bool" where
  "is_surrogate u \<longleftrightarrow> 0xD800 \<le> unat u \<and> unat u \<le> 0xDFFF"

definition is_low :: "u16 \<Rightarrow> bool" where
  "is_low u \<longleftrightarrow> 0xDC00 \<le> unat u \<and> unat u \<le> 0xDFFF"

text \<open>
  \<open>char::decode_utf16\<close>: one item for each char or unpaired surrogate, \<open>None\<close> for the
  latter. A unit that fails to complete a pair is decoded again on its own.
\<close>

fun decode_utf16 :: "u16 list \<Rightarrow> nat option list" where
  "decode_utf16 [] = []"
| "decode_utf16 [u] = [if is_surrogate u then None else Some (unat u)]"
| "decode_utf16 (u # v # us) =
     (if \<not> is_surrogate u then Some (unat u) # decode_utf16 (v # us)
      else if is_low u \<or> \<not> is_low v then None # decode_utf16 (v # us)
      else Some (0x10000 + (unat u - 0xD800) * 1024 + (unat v - 0xDC00)) # decode_utf16 us)"

definition unit_of :: "nat \<Rightarrow> u16" where
  "unit_of n = word_of_nat n"

text \<open>\<open>str::encode_utf16\<close>\<close>

definition utf16_char :: "nat \<Rightarrow> u16 list" where
  "utf16_char c =
     (if c < 0x10000 then [unit_of c]
      else [unit_of (0xD800 + (c - 0x10000) div 1024), unit_of (0xDC00 + (c - 0x10000) mod 1024)])"

definition encode_utf16 :: "rstring \<Rightarrow> u16 list" where
  "encode_utf16 s = concat (map utf16_char s)"

lemma encode_utf16_simps [simp]:
  "encode_utf16 [] = []" "encode_utf16 (c # s) = utf16_char c @ encode_utf16 s"
  by (simp_all add: encode_utf16_def)

lemma unat_unit [simp]: "n < 65536 \<Longrightarrow> unat (unit_of n) = n"
  by (simp add: unit_of_def unat_of_nat)

lemma unit_of_unat [simp]: "unit_of (unat u) = u"
  by (simp add: unit_of_def)

lemma u16_unat_less [simp]: "unat (u :: u16) < 65536"
  using unsigned_less [of u] by simp

lemma non_surrogate_scalar: "is_scalar (unat u) \<longleftrightarrow> \<not> is_surrogate u"
  using u16_unat_less [of u] unfolding is_scalar_def is_surrogate_def by linarith

lemma is_low_surrogate: "is_low u \<Longrightarrow> is_surrogate u"
  by (simp add: is_low_def is_surrogate_def)

lemma decode_utf16_char:
  assumes "is_scalar c"
  shows "decode_utf16 (utf16_char c @ us) = Some c # decode_utf16 us"
proof (cases "c < 0x10000")
  case True
  with assms have "\<not> is_surrogate (unit_of c)" by (auto simp: is_scalar_def is_surrogate_def)
  with True show ?thesis by (cases us) (simp_all add: utf16_char_def)
next
  case False
  define d where "d = c - 0x10000"
  have "d < 1048576" using assms False by (auto simp: is_scalar_def d_def)
  then have "d div 1024 < 1024" by auto
  moreover have "d mod 1024 < 1024" by simp
  moreover have "c = 0x10000 + d div 1024 * 1024 + d mod 1024" using False by (simp add: d_def)
  ultimately show ?thesis using False
    by (simp add: utf16_char_def is_surrogate_def is_low_def flip: d_def)
qed

lemma decode_encode_utf16: "scalars s \<Longrightarrow> decode_utf16 (encode_utf16 s) = map Some s"
  by (induction s) (simp_all add: decode_utf16_char)

text \<open>The char of a surrogate pair, and the pair of the char.\<close>

lemma surrogate_pair:
  assumes "is_surrogate u" "\<not> is_low u" "is_low v"
  defines "c \<equiv> 0x10000 + (unat u - 0xD800) * 1024 + (unat v - 0xDC00)"
  shows "is_scalar c" "utf16_char c = [u, v]"
proof -
  obtain x y where x: "unat u = 0xD800 + x" "x < 1024" and y: "unat v = 0xDC00 + y" "y < 1024"
    using assms(1-3) that [of "unat u - 0xD800" "unat v - 0xDC00"]
    by (auto simp: is_surrogate_def is_low_def)
  then have c: "c = 0x10000 + (x * 1024 + y)" by (simp add: c_def)
  have "x * 1024 + y < 1048576" using x y by linarith
  then show "is_scalar c" by (simp add: is_scalar_def c)
  have "(x * 1024 + y) div 1024 = x" "(x * 1024 + y) mod 1024 = y" using y by auto
  then show "utf16_char c = [u, v]"
    using unit_of_unat [of u] unit_of_unat [of v] by (simp add: utf16_char_def c x y)
qed

lemma decode_utf16_sound:
  "decode_utf16 us = map Some s \<Longrightarrow> scalars s \<and> encode_utf16 s = us"
proof (induction us arbitrary: s rule: decode_utf16.induct)
  case 1
  then show ?case by simp
next
  case (2 u)
  then show ?case
    by (auto simp: non_surrogate_scalar utf16_char_def Cons_eq_map_conv split: if_splits)
next
  case (3 u v us)
  show ?case
  proof (cases "is_surrogate u")
    case False
    with "3.prems" obtain t where s: "s = unat u # t" and "decode_utf16 (v # us) = map Some t"
      by (auto simp: Cons_eq_map_conv)
    with "3.IH"(1) False have "scalars t \<and> encode_utf16 t = v # us" by blast
    with False show ?thesis
      by (auto simp: s non_surrogate_scalar utf16_char_def)
  next
    case True
    with "3.prems" have p: "\<not> is_low u" "is_low v" by (auto simp: Cons_eq_map_conv split: if_splits)
    with True "3.prems" obtain c t where s: "s = c # t"
      and c: "c = 0x10000 + (unat u - 0xD800) * 1024 + (unat v - 0xDC00)"
      and "decode_utf16 us = map Some t"
      by (auto simp: Cons_eq_map_conv)
    with "3.IH"(3) True p have "scalars t \<and> encode_utf16 t = us" by blast
    with surrogate_pair [OF True p] s c show ?thesis by simp
  qed
qed

lemma decode_utf16_scalar: "Some c \<in> set (decode_utf16 us) \<Longrightarrow> is_scalar c"
proof (induction us rule: decode_utf16.induct)
  case (2 u)
  then show ?case
    by (auto simp: non_surrogate_scalar split: if_splits)
next
  case (3 u v us)
  then show ?case
    using surrogate_pair(1) [of u v] by (auto simp: non_surrogate_scalar split: if_splits)
qed simp

section \<open>Integer formats\<close>

text \<open>\<open>{}\<close> of an unsigned integer.\<close>

fun dec :: "nat \<Rightarrow> rstring" where
  "dec n = (if n < 10 then [48 + n] else dec (n div 10) @ [48 + n mod 10])"

declare dec.simps [simp del]

definition hex_digit :: "nat \<Rightarrow> nat" where
  "hex_digit n = (if n < 10 then 48 + n else 87 + n)"

text \<open>Lower-case hex, zero-padded to \<open>n\<close> digits, of a value below \<open>16 ^ n\<close>.\<close>

fun hex_fixed :: "nat \<Rightarrow> nat \<Rightarrow> rstring" where
  "hex_fixed 0 x = []"
| "hex_fixed (Suc n) x = hex_fixed n (x div 16) @ [hex_digit (x mod 16)]"

lemma hex_fixed_numeral:
  "hex_fixed (numeral k) x = hex_fixed (pred_numeral k) (x div 16) @ [hex_digit (x mod 16)]"
  by (subst numeral_eq_Suc) simp

text \<open>\<open>{}\<close> of a \<open>bool\<close>.\<close>

definition show_bool :: "bool \<Rightarrow> rstring" where
  "show_bool b = (if b then lit ''true'' else lit ''false'')"

definition is_digit :: "nat \<Rightarrow> bool" where
  "is_digit c \<longleftrightarrow> 48 \<le> c \<and> c \<le> 57"

definition is_hex :: "nat \<Rightarrow> bool" where
  "is_hex c \<longleftrightarrow> is_digit c \<or> (97 \<le> c \<and> c \<le> 102)"

definition undec :: "rstring \<Rightarrow> nat" where
  "undec s = foldl (\<lambda>a c. 10 * a + (c - 48)) 0 s"

definition hex_value :: "nat \<Rightarrow> nat" where
  "hex_value c = (if c < 58 then c - 48 else c - 87)"

definition unhex_fixed :: "rstring \<Rightarrow> nat" where
  "unhex_fixed s = foldl (\<lambda>a c. 16 * a + hex_value c) 0 s"

lemma dec_digits: "\<forall>c \<in> set (dec n). is_digit c"
proof (induction n rule: dec.induct)
  case (1 n)
  then show ?case by (subst dec.simps) (auto simp: is_digit_def)
qed

lemma dec_nonempty [simp]: "dec n \<noteq> []"
  by (subst dec.simps) simp

lemma undec_dec: "undec (dec n) = n"
proof (induction n rule: dec.induct)
  case (1 n)
  then show ?case by (subst dec.simps) (auto simp: undec_def)
qed

lemma hex_value_digit: "n < 16 \<Longrightarrow> hex_value (hex_digit n) = n"
  by (auto simp: hex_value_def hex_digit_def)

lemma unhex_hex_fixed: "unhex_fixed (hex_fixed n x) = x mod 16 ^ n"
proof (induction n arbitrary: x)
  case 0
  show ?case by (simp add: unhex_fixed_def)
next
  case (Suc n)
  have "x mod 16 ^ Suc n = x mod 16 + 16 * (x div 16 mod 16 ^ n)" by (simp add: mod_mult2_eq)
  with Suc show ?case by (simp add: unhex_fixed_def hex_value_digit)
qed

lemma length_hex_fixed [simp]: "length (hex_fixed n x) = n"
  by (induction n arbitrary: x) simp_all

lemma hex_fixed_hex: "\<forall>c \<in> set (hex_fixed n x). is_hex c"
  by (induction n arbitrary: x) (auto simp: is_hex_def hex_digit_def is_digit_def)

section \<open>ASCII\<close>

lemma from_utf8_ascii: "unat b < 0x80 \<Longrightarrow> from_utf8 (b # bs) = map_option ((#) (unat b)) (from_utf8 bs)"
  by (simp add: utf8_next.simps Let_def split: option.splits)

declare from_utf8.simps(2) [simp del] from_utf8_lossy.simps(2) [simp del]

end
