(* ===== verification/Reader_Types.thy ===== *)
theory Reader_Types
  imports Rust_Text "HOL-Library.List_Lexorder" "HOL-Library.Product_Lexorder"
begin

text \<open>
  The data the crates exchange: the error type (leveldb-core/src/error.rs) with its messages,
  the record type (leveldb-core/src/record.rs), file paths, and \<open>core_env\<close>, which collects
  what leveldb-core takes from outside the repository: the width of \<open>usize\<close> and the functions
  of the crates integer-encoding, crc32c and snap. What the code relies on of those crates is
  stated by the predicates at the end, the hypotheses of the theorems that need them.
\<close>

section \<open>Paths\<close>

text \<open>
  A \<open>PathBuf\<close> is the bytes it was made from: displaying a path shows them, while its parts and
  its order are those of \<open>Path::components\<close>, which ignores repeated and trailing slashes and
  every dot but a leading one.
\<close>

datatype path = Path (path_bytes: bytes)

datatype component = RootDir | CurDir | ParentDir | Normal bytes

fun split_slash :: "bytes \<Rightarrow> bytes list" where
  "split_slash [] = [[]]"
| "split_slash (b # bs) =
     (if b = 0x2F then [] # split_slash bs
      else (case split_slash bs of [] \<Rightarrow> [[b]] | part # parts \<Rightarrow> (b # part) # parts))"

definition part_component :: "bytes \<Rightarrow> component option" where
  "part_component part =
     (if part = [] \<or> part = [0x2E] then None
      else if part = [0x2E, 0x2E] then Some ParentDir
      else Some (Normal part))"

definition components :: "path \<Rightarrow> component list" where
  "components p =
     (let parts = split_slash (path_bytes p) in
      (if path_bytes p \<noteq> [] \<and> hd (path_bytes p) = 0x2F then [RootDir]
       else if hd parts = [0x2E] then [CurDir] else [])
      @ List.map_filter part_component parts)"

text \<open>The order of components is that of the variants of the enum, then of the bytes.\<close>

fun component_key :: "component \<Rightarrow> nat \<times> bytes" where
  "component_key RootDir = (0, [])"
| "component_key CurDir = (1, [])"
| "component_key ParentDir = (2, [])"
| "component_key (Normal part) = (3, part)"

lemma component_key_inject: "component_key c = component_key d \<Longrightarrow> c = d"
  by (cases c; cases d) simp_all

instantiation component :: linorder
begin

definition less_eq_component :: "component \<Rightarrow> component \<Rightarrow> bool" where
  "less_eq_component c d \<longleftrightarrow> component_key c \<le> component_key d"

definition less_component :: "component \<Rightarrow> component \<Rightarrow> bool" where
  "less_component c d \<longleftrightarrow> component_key c < component_key d"

instance
  by standard (auto simp: less_eq_component_def less_component_def less_le_not_le
      intro: component_key_inject order_trans antisym)

end

text \<open>
  Rust compares paths by their components. Paths that differ only in the spelling of the same
  components come in the order of their bytes here, to make the order total; two entries of one
  directory never do.
\<close>

definition path_key :: "path \<Rightarrow> component list \<times> bytes" where
  "path_key p = (components p, path_bytes p)"

lemma path_key_inject: "path_key p = path_key q \<Longrightarrow> p = q"
  by (simp add: path_key_def path.expand)

instantiation path :: linorder
begin

definition less_eq_path :: "path \<Rightarrow> path \<Rightarrow> bool" where
  "less_eq_path p q \<longleftrightarrow> path_key p \<le> path_key q"

definition less_path :: "path \<Rightarrow> path \<Rightarrow> bool" where
  "less_path p q \<longleftrightarrow> path_key p < path_key q"

instance
  by standard (auto simp: less_eq_path_def less_path_def less_le_not_le
      intro: path_key_inject order_trans antisym)

end

text \<open>\<open>path.display()\<close>: lossy where the path is not UTF-8.\<close>

definition path_display :: "path \<Rightarrow> rstring" where
  "path_display p = from_utf8_lossy (path_bytes p)"

section \<open>Errors\<close>

text \<open>\<open>std::io::Error\<close>, of which the program uses only the message.\<close>

datatype io_error = Io_Error (io_message: rstring)

datatype error =
    UnexpectedEof (eof_what: string) (eof_offset: nat)
  | BadVarint (varint_offset: nat)
  | LengthOutOfRange (len_what: string) (len_value: u64) (len_available: u64) (len_offset: nat)
  | BadTableMagic (magic_found: bytes) (magic_offset: nat)
  | BadBlockCrc (crc_stored: u32) (crc_computed: u32) (crc_offset: nat)
  | UnknownCompression (compression_kind: u8) (compression_offset: nat)
  | Io (io_path: path) (io_source: io_error)

text \<open>\<open>{:02x?}\<close> of a byte array.\<close>

fun debug_hex_list :: "bytes \<Rightarrow> rstring" where
  "debug_hex_list [] = []"
| "debug_hex_list [b] = hex_fixed 2 (unat b)"
| "debug_hex_list (b # bs) = hex_fixed 2 (unat b) @ lit '', '' @ debug_hex_list bs"

text \<open>\<open>{:#010x}\<close> of a \<open>u32\<close>.\<close>

definition hex_u32 :: "u32 \<Rightarrow> rstring" where
  "hex_u32 w = lit ''0x'' @ hex_fixed 8 (unat w)"

fun error_display :: "error \<Rightarrow> rstring" where
  "error_display (UnexpectedEof what off) =
     lit ''unexpected end of input reading '' @ lit what @ lit '' at offset '' @ dec off"
| "error_display (BadVarint off) = lit ''malformed varint at offset '' @ dec off"
| "error_display (LengthOutOfRange what val av off) =
     lit what @ lit '' length '' @ dec (unat val) @ lit '' exceeds '' @ dec (unat av)
       @ lit '' available bytes at offset '' @ dec off"
| "error_display (BadTableMagic found off) =
     lit ''bad SSTable footer magic at offset '' @ dec off @ lit '': found ['' @ debug_hex_list found
       @ lit ''] (expected db4775248b80fb57 little-endian)''"
| "error_display (BadBlockCrc stored computed off) =
     lit ''block crc32c mismatch at offset '' @ dec off @ lit '': stored '' @ hex_u32 stored
       @ lit '', computed '' @ hex_u32 computed"
| "error_display (UnknownCompression kind off) =
     lit ''unknown block compression type '' @ dec (unat kind) @ lit '' at offset '' @ dec off"
| "error_display (Io p src) =
     lit ''I/O error reading '' @ path_display p @ lit '': '' @ io_message src"

text \<open>\<open>std::error::Error::source\<close>\<close>

fun error_source :: "error \<Rightarrow> io_error option" where
  "error_source (Io p src) = Some src"
| "error_source _ = None"

section \<open>Records\<close>

record record_t =
  rec_key :: bytes
  rec_value :: bytes
  rec_seq :: u64
  rec_deleted :: bool
  rec_origin :: path

section \<open>Platform and external crates\<close>

record core_env =
  usize_max :: nat
  decode_var :: "bytes \<Rightarrow> (u64 \<times> nat) option"
  crc32c :: "bytes \<Rightarrow> u32"
  crc32c_append :: "u32 \<Rightarrow> bytes \<Rightarrow> u32"
  decompress_len :: "bytes \<Rightarrow> nat option"
  decompress_vec :: "bytes \<Rightarrow> bytes option"

text \<open>
  \<open>usize\<close> arithmetic. A plain \<open>+\<close> that overflows is a panic here; the theorems show that no
  input reaches one, so builds with and without overflow checks behave alike.
\<close>

definition checked_add :: "core_env \<Rightarrow> nat \<Rightarrow> nat \<Rightarrow> nat option" where
  "checked_add E a b = (if a + b \<le> usize_max E then Some (a + b) else None)"

definition checked_mul :: "core_env \<Rightarrow> nat \<Rightarrow> nat \<Rightarrow> nat option" where
  "checked_mul E a b = (if a * b \<le> usize_max E then Some (a * b) else None)"

definition checked_sub :: "nat \<Rightarrow> nat \<Rightarrow> nat option" where
  "checked_sub a b = (if b \<le> a then Some (a - b) else None)"

definition saturating_add :: "core_env \<Rightarrow> nat \<Rightarrow> nat \<Rightarrow> nat" where
  "saturating_add E a b = min (a + b) (usize_max E)"

definition plus_usize :: "core_env \<Rightarrow> nat \<Rightarrow> nat \<Rightarrow> ('e, nat) outcome" where
  "plus_usize E a b = (case checked_add E a b of Some c \<Rightarrow> Ok c | None \<Rightarrow> Panic)"

text \<open>\<open>usize::try_from(x)\<close> and \<open>x as usize\<close>\<close>

definition usize_try_from :: "core_env \<Rightarrow> u64 \<Rightarrow> nat option" where
  "usize_try_from E x = (if unat x \<le> usize_max E then Some (unat x) else None)"

definition as_usize :: "core_env \<Rightarrow> nat \<Rightarrow> nat" where
  "as_usize E n = n mod (usize_max E + 1)"

definition as_u64 :: "nat \<Rightarrow> u64" where
  "as_u64 n = word_of_nat n"

definition isize_max :: "core_env \<Rightarrow> nat" where
  "isize_max E = usize_max E div 2"

text \<open>\<open>Vec::with_capacity(n)\<close> of bytes panics when \<open>n\<close> exceeds \<open>isize::MAX\<close>.\<close>

definition with_capacity :: "core_env \<Rightarrow> nat \<Rightarrow> ('e, unit) outcome" where
  "with_capacity E n = (if n \<le> isize_max E then Ok () else Panic)"

lemma yields_plus_usize [outcome_wp]:
  "yields (plus_usize E a b) Q \<longleftrightarrow> a + b \<le> usize_max E \<and> Q (a + b)"
  by (simp add: plus_usize_def checked_add_def)

lemma yields_with_capacity [outcome_wp]:
  "yields (with_capacity E n) Q \<longleftrightarrow> n \<le> isize_max E \<and> Q ()"
  by (simp add: with_capacity_def)

lemma plus_usize_Ok: "plus_usize E a b = Ok c \<longleftrightarrow> a + b \<le> usize_max E \<and> c = a + b"
  by (auto simp: plus_usize_def checked_add_def)

lemma checked_add_eq_Some: "checked_add E a b = Some c \<longleftrightarrow> a + b \<le> usize_max E \<and> c = a + b"
  by (auto simp: checked_add_def)

lemma as_usize_id [simp]: "n \<le> usize_max E \<Longrightarrow> as_usize E n = n"
  by (simp add: as_usize_def)

lemma isize_le_usize: "n \<le> isize_max E \<Longrightarrow> n \<le> usize_max E"
  by (simp add: isize_max_def)

text \<open>The two targets the crate supports, and the buffers Rust can hold.\<close>

definition platform :: "core_env \<Rightarrow> bool" where
  "platform E \<longleftrightarrow> usize_max E = 2 ^ 32 - 1 \<or> usize_max E = 2 ^ 64 - 1"

definition buffer_ok :: "core_env \<Rightarrow> bytes \<Rightarrow> bool" where
  "buffer_ok E buf \<longleftrightarrow> length buf \<le> isize_max E"

lemma platform_bounds:
  "platform E \<Longrightarrow> 2 ^ 32 - 1 \<le> usize_max E \<and> usize_max E \<le> 2 ^ 64 - 1 \<and> 2 ^ 31 - 1 \<le> isize_max E
     \<and> isize_max E \<le> 2 ^ 63 - 1"
  by (auto simp: platform_def isize_max_def)

lemma buffer_ok_usize: "buffer_ok E buf \<Longrightarrow> length buf \<le> usize_max E"
  by (simp add: buffer_ok_def isize_le_usize)

text \<open>
  integer-encoding: a decoded varint used at least one byte and no more than it was given.
\<close>

definition varint_progress :: "core_env \<Rightarrow> bool" where
  "varint_progress E \<longleftrightarrow>
     (\<forall>bs v n. decode_var E bs = Some (v, n) \<longrightarrow> 0 < n \<and> n \<le> length bs)"

lemma varint_progressD:
  "varint_progress E \<Longrightarrow> decode_var E bs = Some (v, n) \<Longrightarrow> 0 < n \<and> n \<le> length bs"
  by (auto simp: varint_progress_def)

text \<open>The LEB128 encoding of a value: seven bits a byte, the low ones first.\<close>

fun leb128_nat :: "nat \<Rightarrow> bytes" where
  "leb128_nat n = (if n < 128 then [byte_of n] else byte_of (128 + n mod 128) # leb128_nat (n div 128))"

declare leb128_nat.simps [simp del]

definition leb128 :: "u64 \<Rightarrow> bytes" where
  "leb128 v = leb128_nat (unat v)"

lemma leb128_nonempty [simp]: "leb128 v \<noteq> []"
  by (simp add: leb128_def, subst leb128_nat.simps) simp

text \<open>integer-encoding: \<open>decode_var\<close> reads back a LEB128 encoding, whatever follows it.\<close>

definition varint_leb128 :: "core_env \<Rightarrow> bool" where
  "varint_leb128 E \<longleftrightarrow>
     (\<forall>v rest. decode_var E (leb128 v @ rest) = Some (v, length (leb128 v)))"

text \<open>snap: a successful decompression has the length announced by the header.\<close>

definition snappy_length :: "core_env \<Rightarrow> bool" where
  "snappy_length E \<longleftrightarrow>
     (\<forall>d out. decompress_vec E d = Some out \<longrightarrow> decompress_len E d = Some (length out))"

text \<open>
  snap: decompression inverts the compressor \<open>compress\<close> on the blocks the code accepts; on inputs
  of 4 GiB and more snap fails.
\<close>

definition snappy_inverts :: "core_env \<Rightarrow> (bytes \<Rightarrow> bytes) \<Rightarrow> bool" where
  "snappy_inverts E compress \<longleftrightarrow>
     (\<forall>x. length x \<le> 256 * 1024 * 1024 \<longrightarrow>
        decompress_len E (compress x) = Some (length x) \<and> decompress_vec E (compress x) = Some x)"

end
