(* ===== verification/Byte_Cursor.thy ===== *)
theory Byte_Cursor
  imports Reader_Types
begin

text \<open>
  The bounds-checked cursor of leveldb-core/src/bytes.rs. A reading method takes the cursor
  and, on success, gives the value and the advanced cursor; after an error every caller drops
  the cursor, so an \<open>Err\<close> carries none. The contract all readers share is the locale
  \<open>cursor_op\<close>: the buffer is untouched, the position stays inside it, and nothing panics.
\<close>

record cursor =
  cbuf :: bytes
  cpos :: nat

definition cursor_new :: "bytes \<Rightarrow> cursor" where
  "cursor_new b = \<lparr>cbuf = b, cpos = 0\<rparr>"

definition remaining :: "cursor \<Rightarrow> nat" where
  "remaining c = length (cbuf c) - cpos c"

definition is_empty :: "cursor \<Rightarrow> bool" where
  "is_empty c \<longleftrightarrow> remaining c = 0"

definition cur_take :: "core_env \<Rightarrow> nat \<Rightarrow> string \<Rightarrow> cursor \<Rightarrow> (error, bytes \<times> cursor) outcome" where
  "cur_take E n what c =
     bind (ok_or (checked_add E (cpos c) n) (UnexpectedEof what (cpos c))) (\<lambda>end_pos.
     bind (ok_or (get_range (cbuf c) (cpos c) end_pos) (UnexpectedEof what (cpos c))) (\<lambda>s.
     Ok (s, c\<lparr>cpos := end_pos\<rparr>)))"

definition read_u8 :: "core_env \<Rightarrow> string \<Rightarrow> cursor \<Rightarrow> (error, u8 \<times> cursor) outcome" where
  "read_u8 E what c =
     bind (cur_take E 1 what c) (\<lambda>(b, c'). bind (idx b [0]) (\<lambda>ys. Ok (hd ys, c')))"

definition read_u32_le :: "core_env \<Rightarrow> string \<Rightarrow> cursor \<Rightarrow> (error, u32 \<times> cursor) outcome" where
  "read_u32_le E what c =
     bind (cur_take E 4 what c) (\<lambda>(b, c').
     bind (idx b [0, 1, 2, 3]) (\<lambda>ys. Ok (u32_from_le_bytes ys, c')))"

definition read_u64_le :: "core_env \<Rightarrow> string \<Rightarrow> cursor \<Rightarrow> (error, u64 \<times> cursor) outcome" where
  "read_u64_le E what c =
     bind (cur_take E 8 what c) (\<lambda>(b, c').
     bind (idx b [0, 1, 2, 3, 4, 5, 6, 7]) (\<lambda>ys. Ok (u64_from_le_bytes ys, c')))"

text \<open>\<open>self.buf.get(self.pos..).unwrap_or(&[])\<close> is empty past the end, as \<open>drop\<close> is.\<close>

definition read_varint_u64 :: "core_env \<Rightarrow> cursor \<Rightarrow> (error, u64 \<times> cursor) outcome" where
  "read_varint_u64 E c =
     (let rest = (case get_range (cbuf c) (cpos c) (length (cbuf c)) of Some r \<Rightarrow> r | None \<Rightarrow> [])
      in bind (ok_or (decode_var E rest) (BadVarint (cpos c))) (\<lambda>(v, consumed).
         Ok (v, c\<lparr>cpos := saturating_add E (cpos c) consumed\<rparr>)))"

definition read_varint_u32 :: "core_env \<Rightarrow> cursor \<Rightarrow> (error, u32 \<times> cursor) outcome" where
  "read_varint_u32 E c =
     bind (read_varint_u64 E c) (\<lambda>(v, c').
     if unat v < 2 ^ 32 then Ok (word_of_nat (unat v), c') else Err (BadVarint (cpos c)))"

definition read_length_prefixed ::
    "core_env \<Rightarrow> string \<Rightarrow> cursor \<Rightarrow> (error, bytes \<times> cursor) outcome" where
  "read_length_prefixed E what c =
     bind (read_varint_u64 E c) (\<lambda>(len, c').
     let available = as_u64 (remaining c') in
     if available < len then Err (LengthOutOfRange what len available (cpos c))
     else cur_take E (as_usize E (unat len)) what c')"

section \<open>Invariant and contract\<close>

definition wf_cursor :: "core_env \<Rightarrow> cursor \<Rightarrow> bool" where
  "wf_cursor E c \<longleftrightarrow> cpos c \<le> length (cbuf c) \<and> length (cbuf c) \<le> usize_max E"

text \<open>The bytes still to be read.\<close>

definition rest_of :: "cursor \<Rightarrow> bytes" where
  "rest_of c = drop (cpos c) (cbuf c)"

lemma length_rest_of: "length (rest_of c) = remaining c"
  by (simp add: rest_of_def remaining_def)

lemma cursor_new_simps [simp]:
  "cbuf (cursor_new b) = b" "cpos (cursor_new b) = 0" "rest_of (cursor_new b) = b"
  by (simp_all add: cursor_new_def rest_of_def)

lemma wf_cursor_new [simp]: "wf_cursor E (cursor_new b) \<longleftrightarrow> length b \<le> usize_max E"
  by (simp add: wf_cursor_def)

text \<open>A reader advances the cursor by \<open>step\<close> bytes or more and never leaves the buffer.\<close>

definition advances :: "core_env \<Rightarrow> nat \<Rightarrow> cursor \<Rightarrow> 'a \<times> cursor \<Rightarrow> bool" where
  "advances E step c r \<longleftrightarrow>
     (let c' = snd r in cbuf c' = cbuf c \<and> cpos c + step \<le> cpos c' \<and> wf_cursor E c')"

locale cursor_op =
  fixes op :: "core_env \<Rightarrow> cursor \<Rightarrow> (error, 'a \<times> cursor) outcome"
    and step :: nat
  assumes op_returns: "returns (op E c)"
    and op_keeps_buf: "op E c = Ok (x, c') \<Longrightarrow> cbuf c' = cbuf c"
    and op_advances: "varint_progress E \<Longrightarrow> wf_cursor E c \<Longrightarrow> op E c = Ok (x, c') \<Longrightarrow>
      cpos c + step \<le> cpos c' \<and> wf_cursor E c'"
begin

lemma op_yields:
  assumes "varint_progress E" "wf_cursor E c"
  shows "yields (op E c) (advances E step c)"
proof (rule yields_mono [OF op_returns])
  fix r
  assume "op E c = Ok r"
  then show "advances E step c r"
    using op_advances [OF assms, of "fst r" "snd r"] op_keeps_buf [of E c "fst r" "snd r"]
    by (simp add: advances_def)
qed

lemma op_remaining:
  assumes "varint_progress E" "wf_cursor E c" "op E c = Ok (x, c')"
  shows "remaining c' + step \<le> remaining c"
  using op_advances [OF assms] op_keeps_buf [OF assms(3)] by (auto simp: remaining_def wf_cursor_def)

lemma op_no_panic: "op E c \<noteq> Panic" "op E c \<noteq> Diverge"
  using op_returns [of E c] by auto

end

lemma cur_take_Ok:
  "cur_take E n what c = Ok (s, c') \<longleftrightarrow>
     cpos c + n \<le> usize_max E \<and> cpos c + n \<le> length (cbuf c) \<and>
     s = take n (drop (cpos c) (cbuf c)) \<and> c' = c\<lparr>cpos := cpos c + n\<rparr>"
  by (auto simp: cur_take_def bind_eq_Ok checked_add_eq_Some get_range_eq_Some)

lemma cur_take_returns: "returns (cur_take E n what c)"
  by (simp add: cur_take_def outcome_wp)

interpretation take_op: cursor_op "\<lambda>E. cur_take E n what" n
  by unfold_locales (auto simp: cur_take_returns cur_take_Ok wf_cursor_def)

lemma yields_cur_take [outcome_wp]:
  "yields (cur_take E n what c) Q \<longleftrightarrow>
     (cpos c + n \<le> usize_max E \<and> cpos c + n \<le> length (cbuf c) \<longrightarrow>
      Q (take n (drop (cpos c) (cbuf c)), c\<lparr>cpos := cpos c + n\<rparr>))"
  by (auto simp: cur_take_def yields_bind yields_ok_or checked_add_eq_Some get_range_eq_Some)

lemma read_u8_Ok:
  "read_u8 E what c = Ok (x, c') \<longleftrightarrow>
     cpos c + 1 \<le> usize_max E \<and> cpos c < length (cbuf c) \<and> x = cbuf c ! cpos c \<and>
     c' = c\<lparr>cpos := cpos c + 1\<rparr>"
  by (auto simp: read_u8_def bind_eq_Ok cur_take_Ok idx.simps split: if_splits prod.splits)

lemma read_u8_returns: "returns (read_u8 E what c)"
  by (auto simp: read_u8_def outcome_wp)

interpretation u8_op: cursor_op "\<lambda>E. read_u8 E what" 1
  by unfold_locales (auto simp: read_u8_returns read_u8_Ok wf_cursor_def)

text \<open>The fixed-width readers: the bytes at the position, decoded.\<close>

lemma idx4: "length b = 4 \<Longrightarrow> idx b [0, Suc 0, 2, 3] = Ok b"
  by (subst idx_Ok) (auto simp: numeral_eq_Suc length_Suc_conv)

lemma idx8: "length b = 8 \<Longrightarrow> idx b [0, Suc 0, 2, 3, 4, 5, 6, 7] = Ok b"
  by (subst idx_Ok) (auto simp: numeral_eq_Suc length_Suc_conv)

lemma read_u32_le_Ok:
  "read_u32_le E what c = Ok (x, c') \<longleftrightarrow>
     cpos c + 4 \<le> usize_max E \<and> cpos c + 4 \<le> length (cbuf c) \<and>
     x = u32_from_le_bytes (take 4 (drop (cpos c) (cbuf c))) \<and> c' = c\<lparr>cpos := cpos c + 4\<rparr>"
  by (auto simp: read_u32_le_def bind_eq_Ok cur_take_Ok idx4 split: prod.splits)

lemma read_u32_le_returns: "returns (read_u32_le E what c)"
  by (auto simp: read_u32_le_def outcome_wp)

interpretation u32_op: cursor_op "\<lambda>E. read_u32_le E what" 4
  by unfold_locales (auto simp: read_u32_le_returns read_u32_le_Ok wf_cursor_def)

lemma read_u64_le_Ok:
  "read_u64_le E what c = Ok (x, c') \<longleftrightarrow>
     cpos c + 8 \<le> usize_max E \<and> cpos c + 8 \<le> length (cbuf c) \<and>
     x = u64_from_le_bytes (take 8 (drop (cpos c) (cbuf c))) \<and> c' = c\<lparr>cpos := cpos c + 8\<rparr>"
  by (auto simp: read_u64_le_def bind_eq_Ok cur_take_Ok idx8 split: prod.splits)

lemma read_u64_le_returns: "returns (read_u64_le E what c)"
  by (auto simp: read_u64_le_def outcome_wp)

interpretation u64_op: cursor_op "\<lambda>E. read_u64_le E what" 8
  by unfold_locales (auto simp: read_u64_le_returns read_u64_le_Ok wf_cursor_def)

section \<open>Varints\<close>

lemma read_varint_u64_rest:
  "read_varint_u64 E c =
     bind (ok_or (decode_var E (rest_of c)) (BadVarint (cpos c))) (\<lambda>(v, consumed).
       Ok (v, c\<lparr>cpos := saturating_add E (cpos c) consumed\<rparr>))"
  by (auto simp: read_varint_u64_def get_range_def rest_of_def)

lemma read_varint_u64_Ok:
  "read_varint_u64 E c = Ok (x, c') \<longleftrightarrow>
     (\<exists>n. decode_var E (rest_of c) = Some (x, n) \<and> c' = c\<lparr>cpos := saturating_add E (cpos c) n\<rparr>)"
  by (auto simp: read_varint_u64_rest bind_eq_Ok)

lemma read_varint_u64_returns: "returns (read_varint_u64 E c)"
  by (auto simp: read_varint_u64_rest outcome_wp)

lemma varint_advances:
  assumes "varint_progress E" "wf_cursor E c" "read_varint_u64 E c = Ok (x, c')"
  shows "cpos c + 1 \<le> cpos c' \<and> wf_cursor E c'"
proof -
  from assms(3) obtain n where d: "decode_var E (rest_of c) = Some (x, n)"
    and c': "c' = c\<lparr>cpos := saturating_add E (cpos c) n\<rparr>" by (auto simp: read_varint_u64_Ok)
  from varint_progressD [OF assms(1) d] have "0 < n" "n \<le> remaining c"
    by (auto simp: length_rest_of)
  with assms(2) show ?thesis by (auto simp: c' wf_cursor_def remaining_def saturating_add_def)
qed

interpretation varint64_op: cursor_op read_varint_u64 1
  by unfold_locales
    (use varint_advances read_varint_u64_returns in \<open>auto simp: read_varint_u64_Ok\<close>)

lemma read_varint_u32_Ok:
  "read_varint_u32 E c = Ok (x, c') \<longleftrightarrow>
     (\<exists>v. read_varint_u64 E c = Ok (v, c') \<and> unat v < 2 ^ 32 \<and> x = word_of_nat (unat v))"
  by (auto simp: read_varint_u32_def bind_eq_Ok split: prod.splits)

lemma read_varint_u32_returns: "returns (read_varint_u32 E c)"
  using read_varint_u64_returns [of E c]
  by (auto simp: read_varint_u32_def outcome_wp intro: yields_mono)

interpretation varint32_op: cursor_op read_varint_u32 1
  by unfold_locales
    (use varint64_op.op_advances varint64_op.op_keeps_buf read_varint_u32_returns in
      \<open>auto simp: read_varint_u32_Ok\<close>)

lemma read_length_prefixed_returns: "returns (read_length_prefixed E what c)"
  using read_varint_u64_returns [of E c]
  by (auto simp: read_length_prefixed_def outcome_wp Let_def cur_take_returns intro: yields_mono)

lemma read_length_prefixed_Ok:
  assumes "read_length_prefixed E what c = Ok (x, c')"
  obtains len c1 where "read_varint_u64 E c = Ok (len, c1)"
    "cur_take E (as_usize E (unat len)) what c1 = Ok (x, c')" "len \<le> as_u64 (remaining c1)"
  using assms by (auto simp: read_length_prefixed_def bind_eq_Ok Let_def not_less split: if_splits)

interpretation prefixed_op: cursor_op "\<lambda>E. read_length_prefixed E what" 1
proof unfold_locales
  fix E c
  show "returns (read_length_prefixed E what c)" by (rule read_length_prefixed_returns)
next
  fix E c x c'
  assume "read_length_prefixed E what c = Ok (x, c')"
  then show "cbuf c' = cbuf c"
    by (rule read_length_prefixed_Ok) (auto simp: read_varint_u64_Ok cur_take_Ok)
next
  fix E c x c'
  assume E: "varint_progress E" "wf_cursor E c"
  assume "read_length_prefixed E what c = Ok (x, c')"
  then show "cpos c + 1 \<le> cpos c' \<and> wf_cursor E c'"
  proof (rule read_length_prefixed_Ok)
    fix len c1
    assume r: "read_varint_u64 E c = Ok (len, c1)"
      "cur_take E (as_usize E (unat len)) what c1 = Ok (x, c')"
    have "cpos c + 1 \<le> cpos c1 \<and> wf_cursor E c1" by (rule varint_advances [OF E r(1)])
    moreover from this have "cpos c1 + as_usize E (unat len) \<le> cpos c' \<and> wf_cursor E c'"
      using take_op.op_advances [OF E(1) _ r(2)] by blast
    ultimately show ?thesis by linarith
  qed
qed

section \<open>Reading an encoding back\<close>

definition advance :: "nat \<Rightarrow> cursor \<Rightarrow> cursor" where
  "advance n c = c\<lparr>cpos := cpos c + n\<rparr>"

lemma advance_simps [simp]:
  "cbuf (advance n c) = cbuf c" "cpos (advance n c) = cpos c + n"
  "rest_of (advance n c) = drop n (rest_of c)"
  "advance m (advance n c) = advance (n + m) c"
  by (simp_all add: advance_def rest_of_def add.commute add.left_commute)

lemma wf_advance: "wf_cursor E c \<Longrightarrow> n \<le> length (rest_of c) \<Longrightarrow> wf_cursor E (advance n c)"
  by (auto simp: wf_cursor_def rest_of_def)

lemma wf_rest_bound: "wf_cursor E c \<Longrightarrow> cpos c + length (rest_of c) \<le> usize_max E"
  by (simp add: wf_cursor_def rest_of_def)

lemma cur_take_prefix:
  "wf_cursor E c \<Longrightarrow> rest_of c = s @ r \<Longrightarrow>
   cur_take E (length s) what c = Ok (s, advance (length s) c)"
  using wf_rest_bound [of E c]
  by (auto simp: cur_take_Ok advance_def wf_cursor_def rest_of_def dest: arg_cong [of _ _ length])

lemma read_u8_prefix:
  "wf_cursor E c \<Longrightarrow> rest_of c = b # r \<Longrightarrow> read_u8 E what c = Ok (b, advance 1 c)"
  using wf_rest_bound [of E c]
  by (auto simp: read_u8_Ok advance_def wf_cursor_def rest_of_def nth_via_drop
      dest: arg_cong [of _ _ length])

lemma read_u32_le_prefix:
  "wf_cursor E c \<Longrightarrow> rest_of c = s @ r \<Longrightarrow> length s = 4 \<Longrightarrow>
   read_u32_le E what c = Ok (u32_from_le_bytes s, advance 4 c)"
  using wf_rest_bound [of E c]
  by (auto simp: read_u32_le_Ok advance_def wf_cursor_def rest_of_def dest: arg_cong [of _ _ length])

lemma read_u64_le_prefix:
  "wf_cursor E c \<Longrightarrow> rest_of c = s @ r \<Longrightarrow> length s = 8 \<Longrightarrow>
   read_u64_le E what c = Ok (u64_from_le_bytes s, advance 8 c)"
  using wf_rest_bound [of E c]
  by (auto simp: read_u64_le_Ok advance_def wf_cursor_def rest_of_def dest: arg_cong [of _ _ length])

lemma read_varint_u64_prefix:
  assumes "varint_leb128 E" "wf_cursor E c" "rest_of c = leb128 v @ r"
  shows "read_varint_u64 E c = Ok (v, advance (length (leb128 v)) c)"
proof -
  have "decode_var E (rest_of c) = Some (v, length (leb128 v))"
    using assms(1,3) by (simp add: varint_leb128_def)
  moreover have "cpos c + length (leb128 v) \<le> usize_max E"
    using wf_rest_bound [OF assms(2)] assms(3) by simp
  ultimately show ?thesis by (simp add: read_varint_u64_Ok saturating_add_def advance_def)
qed

lemma read_varint_u32_prefix:
  assumes "varint_leb128 E" "wf_cursor E c" "rest_of c = leb128 (as_u64 n) @ r" "n < 2 ^ 32"
  shows "read_varint_u32 E c = Ok (word_of_nat n, advance (length (leb128 (as_u64 n))) c)"
  using read_varint_u64_prefix [OF assms(1-3)] assms(4)
  by (simp add: read_varint_u32_def as_u64_def unat_of_nat)

text \<open>A length-prefixed byte string, as LevelDB writes it.\<close>

definition length_prefixed :: "bytes \<Rightarrow> bytes" where
  "length_prefixed s = leb128 (as_u64 (length s)) @ s"

lemma read_length_prefixed_prefix:
  assumes "platform E" "varint_leb128 E" "wf_cursor E c" "rest_of c = length_prefixed s @ r"
  shows "read_length_prefixed E what c = Ok (s, advance (length (length_prefixed s)) c)"
proof -
  let ?n = "length (leb128 (as_u64 (length s)))"
  have rest: "rest_of c = leb128 (as_u64 (length s)) @ s @ r"
    using assms(4) by (simp add: length_prefixed_def)
  have len: "length s < 2 ^ 64" "remaining (advance ?n c) < 2 ^ 64"
    using wf_rest_bound [OF assms(3)] platform_bounds [OF assms(1)] rest
    by (auto simp flip: length_rest_of)
  have "as_u64 (length s) \<le> as_u64 (remaining (advance ?n c))"
    using len rest
    by (simp add: as_u64_def word_le_nat_alt unat_of_nat del: of_nat_add flip: length_rest_of)
  moreover have "as_usize E (unat (as_u64 (length s))) = length s"
    using len(1) wf_rest_bound [OF assms(3)] rest by (simp add: as_u64_def unat_of_nat)
  moreover have "cur_take E (length s) what (advance ?n c) = Ok (s, advance (length s) (advance ?n c))"
    by (rule cur_take_prefix [OF wf_advance [OF assms(3)]]) (simp_all add: rest)
  ultimately show ?thesis
    using read_varint_u64_prefix [OF assms(2,3) rest]
    by (simp add: read_length_prefixed_def length_prefixed_def add.commute Let_def leD)
qed

end
