(* ===== verification/Wal_Log.thy ===== *)
theory Wal_Log
  imports Byte_Cursor
begin

text \<open>
  The write-ahead log reader, leveldb-core/src/log.rs. \<open>parse_log\<close> walks 32 KiB blocks,
  \<open>block_loop\<close> the physical records of one block, \<open>reassemble\<close> is the state change of one
  physical record and \<open>parse_write_batch\<close> decodes a reassembled batch.
\<close>

definition BLOCK_SIZE :: nat where "BLOCK_SIZE = 32768"
definition HEADER_SIZE :: nat where "HEADER_SIZE = 7"
definition REC_FULL :: u8 where "REC_FULL = 1"
definition REC_FIRST :: u8 where "REC_FIRST = 2"
definition REC_MIDDLE :: u8 where "REC_MIDDLE = 3"
definition REC_LAST :: u8 where "REC_LAST = 4"
definition OP_DELETE :: u8 where "OP_DELETE = 0"
definition OP_VALUE :: u8 where "OP_VALUE = 1"
definition BATCH_HEADER_LEN :: nat where "BATCH_HEADER_LEN = 12"
definition CRC_MASK_DELTA :: u32 where "CRC_MASK_DELTA = 0xa282ead8"

lemmas rec_type_defs = REC_FULL_def REC_FIRST_def REC_MIDDLE_def REC_LAST_def

definition mask_crc :: "u32 \<Rightarrow> u32" where
  "mask_crc crc = word_rotl 17 crc + CRC_MASK_DELTA"

definition record_crc :: "core_env \<Rightarrow> u8 \<Rightarrow> bytes \<Rightarrow> u32" where
  "record_crc E record_type dat = mask_crc (crc32c_append E (crc32c E [record_type]) dat)"

section \<open>Write batches\<close>

text \<open>\<open>u64::saturating_add\<close>\<close>

definition saturating_add_u64 :: "u64 \<Rightarrow> u64 \<Rightarrow> u64" where
  "saturating_add_u64 a b = (if unat a + unat b < 2 ^ 64 then a + b else - 1)"

text \<open>The body of \<open>for i in 0..count\<close>; \<open>n\<close> is the number of rounds left.\<close>

fun batch_ops ::
    "core_env \<Rightarrow> path \<Rightarrow> u64 \<Rightarrow> nat \<Rightarrow> nat \<Rightarrow> cursor \<Rightarrow> record_t list \<Rightarrow> (error, record_t list) outcome"
  where
  "batch_ops E origin base_seq 0 i cur out = Ok out"
| "batch_ops E origin base_seq (Suc n) i cur out =
     or_return (read_u8 E ''op type'' cur) out (\<lambda>(op, cur).
     let seq = saturating_add_u64 base_seq (as_u64 i) in
     if op = OP_VALUE then
       or_return (read_length_prefixed E ''op key'' cur) out (\<lambda>(key, cur).
       or_return (read_length_prefixed E ''op value'' cur) out (\<lambda>(val, cur).
       batch_ops E origin base_seq n (Suc i) cur
         (out @ [\<lparr>rec_key = key, rec_value = val, rec_seq = seq, rec_deleted = False,
                 rec_origin = origin\<rparr>])))
     else if op = OP_DELETE then
       or_return (read_length_prefixed E ''op key'' cur) out (\<lambda>(key, cur).
       batch_ops E origin base_seq n (Suc i) cur
         (out @ [\<lparr>rec_key = key, rec_value = [], rec_seq = seq, rec_deleted = True,
                 rec_origin = origin\<rparr>]))
     else Ok out)"

definition parse_write_batch ::
    "core_env \<Rightarrow> bytes \<Rightarrow> path \<Rightarrow> record_t list \<Rightarrow> (error, record_t list) outcome" where
  "parse_write_batch E batch origin out =
     (if length batch < BATCH_HEADER_LEN then Ok out
      else
        or_return (read_u64_le E ''batch seq'' (cursor_new batch)) out (\<lambda>(base_seq, cur).
        or_return (read_u32_le E ''batch count'' cur) out (\<lambda>(count, cur).
        batch_ops E origin base_seq (unat count) 0 cur out)))"

section \<open>Physical records\<close>

record log_state =
  fragment :: bytes
  in_record :: bool
  records :: "record_t list"

text \<open>The \<open>match record_type\<close> of \<open>parse_log\<close>.\<close>

definition reassemble ::
    "core_env \<Rightarrow> path \<Rightarrow> u8 \<Rightarrow> bytes \<Rightarrow> bool \<Rightarrow> log_state \<Rightarrow> (error, log_state) outcome" where
  "reassemble E origin record_type dat crc_ok st =
     (if record_type = REC_FULL then
        let st = st\<lparr>fragment := [], in_record := False\<rparr> in
        if crc_ok then
          bind (parse_write_batch E dat origin (records st)) (\<lambda>rs. Ok (st\<lparr>records := rs\<rparr>))
        else Ok st
      else if record_type = REC_FIRST then
        let st = st\<lparr>fragment := []\<rparr> in
        if crc_ok then Ok (st\<lparr>fragment := fragment st @ dat, in_record := True\<rparr>)
        else Ok (st\<lparr>in_record := False\<rparr>)
      else if record_type = REC_MIDDLE then
        if in_record st \<and> crc_ok then Ok (st\<lparr>fragment := fragment st @ dat\<rparr>)
        else Ok (st\<lparr>in_record := False, fragment := []\<rparr>)
      else if record_type = REC_LAST then
        bind (if in_record st \<and> crc_ok then
                let st = st\<lparr>fragment := fragment st @ dat\<rparr> in
                bind (parse_write_batch E (fragment st) origin (records st))
                  (\<lambda>rs. Ok (st\<lparr>records := rs\<rparr>))
              else Ok st)
          (\<lambda>st. Ok (st\<lparr>fragment := [], in_record := False\<rparr>))
      else Ok (st\<lparr>in_record := False, fragment := []\<rparr>))"

text \<open>
  The inner \<open>while pos + HEADER_SIZE <= block.len()\<close>; its \<open>break\<close>s return the state. The
  position grows by the header size at least, so the loop ends for every block.
\<close>

function block_loop ::
    "core_env \<Rightarrow> path \<Rightarrow> bytes \<Rightarrow> nat \<Rightarrow> log_state \<Rightarrow> (error, log_state) outcome" where
  "block_loop E origin block pos st =
     bind (plus_usize E pos HEADER_SIZE) (\<lambda>header_end.
     if header_end \<le> length block then
       bind (slice block pos header_end) (\<lambda>header.
       bind (idx header [0, 1, 2, 3]) (\<lambda>crc_bytes.
       bind (idx header [4, 5]) (\<lambda>len_bytes.
       bind (idx header [6]) (\<lambda>type_byte.
       let stored_crc = u32_from_le_bytes crc_bytes;
           len = unat (u16_from_le_bytes len_bytes);
           record_type = hd type_byte
       in if record_type = 0 \<and> len = 0 \<and> stored_crc = 0 then Ok st
          else
            bind (plus_usize E pos HEADER_SIZE) (\<lambda>data_start.
            case checked_add E data_start len of
              None \<Rightarrow> Ok st
            | Some data_end \<Rightarrow>
                if data_end \<le> length block then
                  bind (slice block data_start data_end) (\<lambda>dat.
                  bind (reassemble E origin record_type dat
                         (record_crc E record_type dat = stored_crc) st) (\<lambda>st.
                  block_loop E origin block data_end st))
                else Ok st)))))
     else Ok st)"
  by pat_completeness auto
termination
  by (relation "measure (\<lambda>(E, origin, block, pos, st). length block - pos)")
    (auto simp: plus_usize_Ok checked_add_eq_Some HEADER_SIZE_def)

declare block_loop.simps [simp del]

text \<open>
  The outer \<open>while block_start < buf.len()\<close>. The number of rounds is bounded by \<open>fuel\<close>;
  \<open>parse_log\<close> supplies one more than the buffer has bytes, and every round of a buffer
  that fits the address space consumes a byte at least.
\<close>

fun log_loop ::
    "core_env \<Rightarrow> path \<Rightarrow> nat \<Rightarrow> bytes \<Rightarrow> nat \<Rightarrow> log_state \<Rightarrow> (error, log_state) outcome" where
  "log_loop E origin 0 buf block_start st = Diverge"
| "log_loop E origin (Suc fuel) buf block_start st =
     (if block_start < length buf then
        let block_end = min (saturating_add E block_start BLOCK_SIZE) (length buf) in
        bind (slice buf block_start block_end) (\<lambda>block.
        bind (block_loop E origin block 0 st) (\<lambda>st.
        log_loop E origin fuel buf block_end st))
      else Ok st)"

definition parse_log :: "core_env \<Rightarrow> bytes \<Rightarrow> path \<Rightarrow> (error, record_t list) outcome" where
  "parse_log E buf origin =
     bind (log_loop E origin (Suc (length buf)) buf 0
             \<lparr>fragment = [], in_record = False, records = []\<rparr>)
       (\<lambda>st. Ok (records st))"

end
