(* ===== verification/Wal_Reassembly.thy ===== *)
theory Wal_Reassembly
  imports Wal_Log "HOL-Library.Sublist"
begin

text \<open>
  What the log reader promises, in three stages that do not know of each other: framing
  (\<open>phys_records\<close>: the physical records of a file), reassembly (\<open>assemble\<close>: the batches a
  sequence of physical records carries) and decoding (\<open>batch_records\<close>). \<open>parse_log_spec\<close>
  states that the loops of log.rs compute their composition and never panic.
\<close>

section \<open>Decoding a batch\<close>

text \<open>
  One operation of a batch, if it can be read in full; \<open>ops_list\<close> is the list of those that
  can, up to the first that cannot. The decoder neither fails nor panics: it appends
  \<open>ops_list\<close> to whatever was collected before.
\<close>

definition read_op ::
    "core_env \<Rightarrow> path \<Rightarrow> u64 \<Rightarrow> nat \<Rightarrow> cursor \<Rightarrow> (record_t \<times> cursor) option" where
  "read_op E origin base_seq i cur =
     (case ok_part (read_u8 E ''op type'' cur) of None \<Rightarrow> None | Some (op, c1) \<Rightarrow>
      if op \<noteq> OP_VALUE \<and> op \<noteq> OP_DELETE then None
      else (case ok_part (read_length_prefixed E ''op key'' c1) of None \<Rightarrow> None | Some (key, c2) \<Rightarrow>
        let seq = saturating_add_u64 base_seq (as_u64 i) in
        if op = OP_DELETE then
          Some (\<lparr>rec_key = key, rec_value = [], rec_seq = seq, rec_deleted = True,
                 rec_origin = origin\<rparr>, c2)
        else (case ok_part (read_length_prefixed E ''op value'' c2) of None \<Rightarrow> None
          | Some (val, c3) \<Rightarrow>
              Some (\<lparr>rec_key = key, rec_value = val, rec_seq = seq, rec_deleted = False,
                     rec_origin = origin\<rparr>, c3))))"

fun ops_list :: "core_env \<Rightarrow> path \<Rightarrow> u64 \<Rightarrow> nat \<Rightarrow> nat \<Rightarrow> cursor \<Rightarrow> record_t list" where
  "ops_list E origin base_seq 0 i cur = []"
| "ops_list E origin base_seq (Suc n) i cur =
     (case read_op E origin base_seq i cur of None \<Rightarrow> []
      | Some (r, c) \<Rightarrow> r # ops_list E origin base_seq n (Suc i) c)"

lemma batch_ops_step:
  "batch_ops E origin base_seq (Suc n) i cur out =
     (case read_op E origin base_seq i cur of None \<Rightarrow> Ok out
      | Some (r, c) \<Rightarrow> batch_ops E origin base_seq n (Suc i) c (out @ [r]))"
  by (auto simp: read_op_def or_return_ok_part read_u8_returns read_length_prefixed_returns Let_def
      OP_VALUE_def OP_DELETE_def split: option.splits prod.splits)

lemma batch_ops_eq: "batch_ops E origin base_seq n i cur out = Ok (out @ ops_list E origin base_seq n i cur)"
proof (induction n arbitrary: i cur out)
  case 0
  show ?case by simp
next
  case (Suc n)
  then show ?case unfolding batch_ops_step by (auto split: option.splits prod.splits)
qed

definition batch_records :: "core_env \<Rightarrow> path \<Rightarrow> bytes \<Rightarrow> record_t list" where
  "batch_records E origin batch =
     (case parse_write_batch E batch origin [] of Ok rs \<Rightarrow> rs | _ \<Rightarrow> [])"

lemma parse_write_batch_eq:
  "parse_write_batch E batch origin out = Ok (out @ batch_records E origin batch)"
  by (auto simp: batch_records_def parse_write_batch_def or_return_ok_part read_u64_le_returns
      read_u32_le_returns batch_ops_eq split: option.splits prod.splits)

text \<open>The header of a batch that has one.\<close>

lemma batch_records_header:
  assumes "BATCH_HEADER_LEN \<le> length b" "length b \<le> usize_max E"
  shows "batch_records E origin b =
    ops_list E origin (u64_from_le_bytes (take 8 b)) (unat (u32_from_le_bytes (take 4 (drop 8 b)))) 0
      (advance 12 (cursor_new b))"
proof -
  have "read_u64_le E ''batch seq'' (cursor_new b) =
      Ok (u64_from_le_bytes (take 8 b), advance 8 (cursor_new b))"
    using assms by (simp add: read_u64_le_Ok BATCH_HEADER_LEN_def advance_def)
  moreover have "read_u32_le E ''batch count'' (advance 8 (cursor_new b)) =
      Ok (u32_from_le_bytes (take 4 (drop 8 b)), advance 12 (cursor_new b))"
    using assms by (simp add: read_u32_le_Ok BATCH_HEADER_LEN_def advance_def)
  ultimately show ?thesis
    using assms by (simp add: batch_records_def parse_write_batch_def batch_ops_eq)
qed

lemma batch_records_short: "length b < BATCH_HEADER_LEN \<Longrightarrow> batch_records E origin b = []"
  by (simp add: batch_records_def parse_write_batch_def)

section \<open>Reassembly\<close>

datatype phys = Phys (ptype: u8) (pdata: bytes) (intact: bool)

datatype reasm = Idle | Collecting bytes

text \<open>The effect of one physical record: the batch it completes, if any, and the next state.\<close>

definition reasm_step :: "reasm \<Rightarrow> phys \<Rightarrow> bytes option \<times> reasm" where
  "reasm_step s p =
     (if ptype p = REC_FULL then (if intact p then Some (pdata p) else None, Idle)
      else if ptype p = REC_FIRST then (None, if intact p then Collecting (pdata p) else Idle)
      else if ptype p = REC_MIDDLE then
        (None, case s of Collecting f \<Rightarrow> if intact p then Collecting (f @ pdata p) else Idle
               | Idle \<Rightarrow> Idle)
      else if ptype p = REC_LAST then
        (case s of Collecting f \<Rightarrow> if intact p then Some (f @ pdata p) else None | Idle \<Rightarrow> None, Idle)
      else (None, Idle))"

fun assemble :: "reasm \<Rightarrow> phys list \<Rightarrow> bytes list" where
  "assemble s [] = []"
| "assemble s (p # ps) =
     (case reasm_step s p of
        (Some b, s') \<Rightarrow> b # assemble s' ps
      | (None, s') \<Rightarrow> assemble s' ps)"

fun reasm_end :: "reasm \<Rightarrow> phys list \<Rightarrow> reasm" where
  "reasm_end s [] = s"
| "reasm_end s (p # ps) = reasm_end (snd (reasm_step s p)) ps"

lemma assemble_append: "assemble s (ps @ qs) = assemble s ps @ assemble (reasm_end s ps) qs"
  by (induction ps arbitrary: s) (auto split: prod.splits option.splits)

lemma reasm_end_append: "reasm_end s (ps @ qs) = reasm_end (reasm_end s ps) qs"
  by (induction ps arbitrary: s) auto

text \<open>The reader's state stands for a state of the machine.\<close>

fun reasm_rel :: "log_state \<Rightarrow> reasm \<Rightarrow> bool" where
  "reasm_rel st Idle \<longleftrightarrow> \<not> in_record st \<and> fragment st = []"
| "reasm_rel st (Collecting f) \<longleftrightarrow> in_record st \<and> fragment st = f"

lemma reassemble_refines:
  assumes "reasm_rel st s"
  shows "\<exists>st'. reassemble E origin t d ok st = Ok st' \<and>
    reasm_rel st' (snd (reasm_step s (Phys t d ok))) \<and>
    records st' = records st @
      (case fst (reasm_step s (Phys t d ok)) of None \<Rightarrow> [] | Some b \<Rightarrow> batch_records E origin b)"
  using assms
  by (cases s) (auto simp: reassemble_def reasm_step_def Let_def parse_write_batch_eq rec_type_defs)

section \<open>Framing\<close>

text \<open>The physical records of one block, from its remaining bytes.\<close>

function scan_block :: "core_env \<Rightarrow> bytes \<Rightarrow> phys list" where
  "scan_block E bs =
     (if length bs < HEADER_SIZE then []
      else
        let stored_crc = u32_from_le_bytes (take 4 bs);
            len = unat (u16_from_le_bytes (take 2 (drop 4 bs)));
            t = bs ! 6;
            rest = drop HEADER_SIZE bs
        in if t = 0 \<and> len = 0 \<and> stored_crc = 0 then []
           else if length rest < len then []
           else Phys t (take len rest) (record_crc E t (take len rest) = stored_crc)
                  # scan_block E (drop len rest))"
  by pat_completeness auto
termination
  by (relation "measure (\<lambda>(E, bs). length bs)") (auto simp: HEADER_SIZE_def)

declare scan_block.simps [simp del]

function phys_records :: "core_env \<Rightarrow> bytes \<Rightarrow> phys list" where
  "phys_records E bs =
     (if bs = [] then []
      else scan_block E (take BLOCK_SIZE bs) @ phys_records E (drop BLOCK_SIZE bs))"
  by pat_completeness auto
termination
  by (relation "measure (\<lambda>(E, bs). length bs)") (auto simp: BLOCK_SIZE_def)

declare phys_records.simps [simp del]

lemma scan_block_short: "length bs < HEADER_SIZE \<Longrightarrow> scan_block E bs = []"
  by (subst scan_block.simps) simp

lemma scan_block_cons:
  assumes "HEADER_SIZE \<le> length bs" "len = unat (u16_from_le_bytes (take 2 (drop 4 bs)))"
    and "crc = u32_from_le_bytes (take 4 bs)" "\<not> (bs ! 6 = 0 \<and> len = 0 \<and> crc = 0)"
    and "rest = drop HEADER_SIZE bs" "len \<le> length rest"
  shows "scan_block E bs =
    Phys (bs ! 6) (take len rest) (record_crc E (bs ! 6) (take len rest) = crc)
      # scan_block E (drop len rest)"
  using assms by (subst scan_block.simps) (auto simp: Let_def)

lemma phys_records_Nil [simp]: "phys_records E [] = []"
  by (subst phys_records.simps) simp

lemma phys_records_step:
  "bs \<noteq> [] \<Longrightarrow> phys_records E bs = scan_block E (take BLOCK_SIZE bs) @ phys_records E (drop BLOCK_SIZE bs)"
  by (subst phys_records.simps) simp

text \<open>One round of the inner loop, seen on the bytes from the position on.\<close>

lemma idx_header:
  assumes "7 \<le> length bs"
  shows "idx (take 7 bs) [0, 1, 2, 3] = Ok (take 4 bs)"
    "idx (take 7 bs) [4, 5] = Ok (take 2 (drop 4 bs))" "idx (take 7 bs) [6] = Ok [bs ! 6]"
proof -
  obtain a b c d e f g r where "bs = a # b # c # d # e # f # g # r"
    using assms by (auto simp: numeral_eq_Suc Suc_le_length_iff)
  then show "idx (take 7 bs) [0, 1, 2, 3] = Ok (take 4 bs)"
    "idx (take 7 bs) [4, 5] = Ok (take 2 (drop 4 bs))" "idx (take 7 bs) [6] = Ok [bs ! 6]"
    by (simp_all add: idx.simps)
qed

lemma u16_le_bound: "unat (u16_from_le_bytes bs) < 65536"
  by simp

lemma block_loop_step:
  assumes E: "65535 + 2 * BLOCK_SIZE \<le> usize_max E" and block: "length block \<le> BLOCK_SIZE"
    and pos: "pos \<le> length block"
  defines "bs \<equiv> drop pos block"
  defines "stored_crc \<equiv> u32_from_le_bytes (take 4 bs)"
    and "len \<equiv> unat (u16_from_le_bytes (take 2 (drop 4 bs)))"
    and "t \<equiv> bs ! 6"
  defines "d \<equiv> take len (drop HEADER_SIZE bs)"
  shows "block_loop E origin block pos st =
    (if length bs < HEADER_SIZE \<or> (t = 0 \<and> len = 0 \<and> stored_crc = 0)
        \<or> length (drop HEADER_SIZE bs) < len then Ok st
     else bind (reassemble E origin t d (record_crc E t d = stored_crc) st)
            (\<lambda>st. block_loop E origin block (pos + HEADER_SIZE + len) st))"
proof -
  have p: "plus_usize E pos HEADER_SIZE = Ok (pos + HEADER_SIZE)"
    using E block pos by (simp add: plus_usize_Ok HEADER_SIZE_def BLOCK_SIZE_def)
  have len: "len < 65536" by (simp add: len_def)
  have lenbs: "length bs = length block - pos" by (simp add: bs_def)
  show ?thesis
  proof (cases "length bs < HEADER_SIZE")
    case True
    then have "\<not> pos + HEADER_SIZE \<le> length block" using lenbs by linarith
    with True show ?thesis by (subst block_loop.simps) (simp add: p)
  next
    case False
    then have he: "pos + HEADER_SIZE \<le> length block" using lenbs pos by linarith
    have sl: "slice block pos (pos + HEADER_SIZE) = Ok (take 7 bs)"
      using he by (simp add: slice_Ok bs_def HEADER_SIZE_def)
    have ca: "checked_add E (pos + HEADER_SIZE) len = Some (pos + HEADER_SIZE + len)"
      using E len block pos by (simp add: checked_add_eq_Some HEADER_SIZE_def BLOCK_SIZE_def)
    have sd: "slice block (pos + HEADER_SIZE) (pos + HEADER_SIZE + len) = Ok d"
      if "pos + HEADER_SIZE + len \<le> length block"
      using that by (simp add: slice_Ok d_def bs_def add.commute)
    have le: "length bs - HEADER_SIZE < len \<longleftrightarrow> \<not> pos + HEADER_SIZE + len \<le> length block"
      using lenbs he by auto
    have "7 \<le> length bs" using False by (simp add: HEADER_SIZE_def)
    note ih = idx_header [OF this]
    show ?thesis
      by (subst block_loop.simps)
        (simp add: p he sl ih ca sd le False Let_def flip: stored_crc_def len_def t_def
          del: idx.simps One_nat_def)
  qed
qed

lemma block_loop_refines:
  assumes E: "65535 + 2 * BLOCK_SIZE \<le> usize_max E" and block: "length block \<le> BLOCK_SIZE"
    and "pos \<le> length block" "reasm_rel st s" "ps = scan_block E (drop pos block)"
  shows "\<exists>st'. block_loop E origin block pos st = Ok st' \<and> reasm_rel st' (reasm_end s ps) \<and>
    records st' = records st @ concat (map (batch_records E origin) (assemble s ps))"
  using assms(3-)
proof (induction "length block - pos" arbitrary: pos st s ps rule: less_induct)
  case less
  define bs where "bs = drop pos block"
  define crc where "crc = u32_from_le_bytes (take 4 bs)"
  define len where "len = unat (u16_from_le_bytes (take 2 (drop 4 bs)))"
  define t where "t = bs ! 6"
  define d where "d = take len (drop HEADER_SIZE bs)"
  note step = block_loop_step [OF E block less.prems(1), of origin st, folded bs_def,
    folded crc_def len_def t_def, folded d_def]
  show ?case
  proof (cases "length bs < HEADER_SIZE \<or> (t = 0 \<and> len = 0 \<and> crc = 0)
      \<or> length (drop HEADER_SIZE bs) < len")
    case True
    then have "ps = []"
      using less.prems(3) by (subst (asm) scan_block.simps) (auto simp: Let_def bs_def crc_def len_def t_def)
    with True step less.prems(2) show ?thesis by simp
  next
    case False
    define q where "q = Phys t d (record_crc E t d = crc)"
    let ?pos = "pos + HEADER_SIZE + len"
    have "drop len (drop HEADER_SIZE bs) = drop ?pos block"
      by (simp add: bs_def add.commute add.left_commute)
    then have ps: "ps = q # scan_block E (drop ?pos block)"
      using less.prems(3) False
      by (subst (asm) scan_block.simps) (auto simp: Let_def q_def d_def bs_def crc_def len_def t_def)
    from False have pos: "?pos \<le> length block" using less.prems(1) by (auto simp: bs_def)
    obtain st1 where st1: "reassemble E origin t d (record_crc E t d = crc) st = Ok st1"
      "reasm_rel st1 (snd (reasm_step s q))"
      "records st1 = records st @
        (case fst (reasm_step s q) of None \<Rightarrow> [] | Some b \<Rightarrow> batch_records E origin b)"
      using reassemble_refines [OF less.prems(2)] unfolding q_def by blast
    have "length block - ?pos < length block - pos"
      using False pos by (auto simp: HEADER_SIZE_def)
    from less.hyps [OF this pos st1(2) refl] obtain st2 where
      "block_loop E origin block ?pos st1 = Ok st2"
      "reasm_rel st2 (reasm_end (snd (reasm_step s q)) (scan_block E (drop ?pos block)))"
      "records st2 = records st1 @ concat (map (batch_records E origin)
        (assemble (snd (reasm_step s q)) (scan_block E (drop ?pos block))))" by blast
    with False step st1 show ?thesis
      by (auto simp: ps split: prod.splits option.splits)
  qed
qed

lemma log_loop_refines:
  assumes E: "65535 + 2 * BLOCK_SIZE \<le> usize_max E" and buf: "length buf \<le> usize_max E"
    and "start \<le> length buf" "length buf - start < fuel"
    and "reasm_rel st s" "ps = phys_records E (drop start buf)"
  shows "\<exists>st'. log_loop E origin fuel buf start st = Ok st' \<and> reasm_rel st' (reasm_end s ps) \<and>
    records st' = records st @ concat (map (batch_records E origin) (assemble s ps))"
  using assms(3-)
proof (induction fuel arbitrary: start st s ps)
  case 0
  then show ?case by simp
next
  case (Suc fuel)
  show ?case
  proof (cases "start < length buf")
    case False
    with Suc.prems show ?thesis by (auto simp: phys_records.simps)
  next
    case True
    define block where "block = take BLOCK_SIZE (drop start buf)"
    define stop where "stop = min (saturating_add E start BLOCK_SIZE) (length buf)"
    have stop: "stop = min (start + BLOCK_SIZE) (length buf)"
      using buf by (auto simp: stop_def saturating_add_def)
    then have sl: "slice buf start stop = Ok block"
      using True by (auto simp: slice_Ok block_def min_def BLOCK_SIZE_def)
    have dr: "drop (BLOCK_SIZE + start) buf = drop stop buf"
      using stop by (auto simp: min_def add.commute)
    let ?qs = "scan_block E block" and ?rs = "phys_records E (drop stop buf)"
    have ps: "ps = ?qs @ ?rs"
      using Suc.prems(4) True by (subst (asm) phys_records.simps) (simp add: dr block_def)
    have "length block \<le> BLOCK_SIZE" by (simp add: block_def)
    from block_loop_refines [OF E this _ Suc.prems(3),
      where pos = 0 and ps = ?qs and origin = origin] obtain st1 where
      1: "block_loop E origin block 0 st = Ok st1" "reasm_rel st1 (reasm_end s ?qs)"
      "records st1 = records st @ concat (map (batch_records E origin) (assemble s ?qs))"
      by auto
    have "stop \<le> length buf" "length buf - stop < fuel"
      using True Suc.prems(2) by (auto simp: stop BLOCK_SIZE_def)
    from Suc.IH [OF this 1(2) refl] obtain st2 where
      "log_loop E origin fuel buf stop st1 = Ok st2" "reasm_rel st2 (reasm_end (reasm_end s ?qs) ?rs)"
      "records st2 = records st1 @
        concat (map (batch_records E origin) (assemble (reasm_end s ?qs) ?rs))" by blast
    with True 1 show ?thesis
      by (simp add: sl ps assemble_append reasm_end_append Let_def flip: stop_def)
  qed
qed

text \<open>The batches a log file carries.\<close>

definition log_batches :: "core_env \<Rightarrow> bytes \<Rightarrow> bytes list" where
  "log_batches E buf = assemble Idle (phys_records E buf)"

lemma parse_log_eq:
  assumes "platform E" "buffer_ok E buf"
  shows "parse_log E buf origin = Ok (concat (map (batch_records E origin) (log_batches E buf)))"
proof -
  have E: "65535 + 2 * BLOCK_SIZE \<le> usize_max E"
    using platform_bounds [OF assms(1)] by (simp add: BLOCK_SIZE_def)
  show ?thesis
    using log_loop_refines [OF E buffer_ok_usize [OF assms(2)], where start = 0
        and fuel = "Suc (length buf)" and s = Idle and origin = origin
        and st = "\<lparr>fragment = [], in_record = False, records = []\<rparr>"]
    by (auto simp: parse_log_def log_batches_def)
qed

end
