(* ===== verification/Wal_Recovery.thy ===== *)
theory Wal_Recovery
  imports Wal_Reassembly
begin

text \<open>
  What a damaged log still yields: reassembly emits the data of contiguous intact runs and
  of nothing else, a truncated file yields a prefix of the records of the whole file, damage
  in one block does not reach records that start in a later one, and a batch cut short yields
  a prefix of its records. Bounds on what any input can make the reader produce.
\<close>

section \<open>Runs\<close>

text \<open>A FIRST fragment followed by MIDDLE fragments, all intact, and the data collected.\<close>

inductive open_run :: "phys list \<Rightarrow> bytes \<Rightarrow> bool" where
  first: "ptype p = REC_FIRST \<Longrightarrow> intact p \<Longrightarrow> open_run [p] (pdata p)"
| middle: "open_run ps f \<Longrightarrow> ptype q = REC_MIDDLE \<Longrightarrow> intact q \<Longrightarrow> open_run (ps @ [q]) (f @ pdata q)"

text \<open>A complete logical record: a FULL record, or an open run closed by a LAST fragment.\<close>

inductive intact_run :: "phys list \<Rightarrow> bytes \<Rightarrow> bool" where
  full: "ptype p = REC_FULL \<Longrightarrow> intact p \<Longrightarrow> intact_run [p] (pdata p)"
| chain: "open_run ps f \<Longrightarrow> ptype q = REC_LAST \<Longrightarrow> intact q \<Longrightarrow> intact_run (ps @ [q]) (f @ pdata q)"

lemma open_run_reasm: "open_run ps f \<Longrightarrow> assemble s ps = [] \<and> reasm_end s ps = Collecting f"
proof (induction arbitrary: s rule: open_run.induct)
  case (first p)
  then show ?case by (simp add: reasm_step_def rec_type_defs)
next
  case (middle ps f q)
  then show ?case
    by (simp add: assemble_append reasm_end_append reasm_step_def rec_type_defs)
qed

lemma intact_run_reasm: "intact_run ps b \<Longrightarrow> assemble s ps = [b] \<and> reasm_end s ps = Idle"
proof (induction rule: intact_run.induct)
  case (full p)
  then show ?case by (simp add: reasm_step_def)
next
  case (chain ps f q)
  then show ?case using open_run_reasm [OF chain(1), of s]
    by (simp add: assemble_append reasm_end_append reasm_step_def rec_type_defs)
qed

text \<open>The data being collected is always that of an open run that ends here.\<close>

lemma collecting_open_run:
  "reasm_end Idle ps = Collecting f \<Longrightarrow> \<exists>xs r. ps = xs @ r \<and> open_run r f"
proof (induction ps arbitrary: f rule: rev_induct)
  case Nil
  then show ?case by simp
next
  case (snoc p ps)
  let ?s = "reasm_end Idle ps"
  from snoc.prems have "snd (reasm_step ?s p) = Collecting f" by (simp add: reasm_end_append)
  then consider "ptype p = REC_FIRST" "intact p" "f = pdata p"
    | g where "ptype p = REC_MIDDLE" "intact p" "?s = Collecting g" "f = g @ pdata p"
    by (auto simp: reasm_step_def split: if_splits reasm.splits)
  then show ?case
  proof cases
    case 1
    then show ?thesis by (metis open_run.first)
  next
    case 2
    from snoc.IH [OF 2(3)] obtain xs r where "ps = xs @ r" "open_run r g" by blast
    with 2 show ?thesis by (metis append.assoc open_run.middle)
  qed
qed

lemma assemble_sound:
  "b \<in> set (assemble Idle ps) \<Longrightarrow> \<exists>xs r ys. ps = xs @ r @ ys \<and> intact_run r b"
proof (induction ps rule: rev_induct)
  case Nil
  then show ?case by simp
next
  case (snoc p ps)
  let ?s = "reasm_end Idle ps"
  show ?case
  proof (cases "b \<in> set (assemble Idle ps)")
    case True
    from snoc.IH [OF this] obtain xs r ys where "ps = xs @ r @ ys" "intact_run r b" by blast
    then have "ps @ [p] = xs @ r @ (ys @ [p])" "intact_run r b" by simp_all
    then show ?thesis by blast
  next
    case False
    with snoc.prems have "fst (reasm_step ?s p) = Some b"
      by (cases "reasm_step ?s p") (auto simp: assemble_append split: option.splits)
    then consider "ptype p = REC_FULL" "intact p" "b = pdata p"
      | g where "ptype p = REC_LAST" "intact p" "?s = Collecting g" "b = g @ pdata p"
      by (auto simp: reasm_step_def split: if_splits reasm.splits)
    then show ?thesis
    proof cases
      case 1
      then have "ps @ [p] = ps @ [p] @ []" "intact_run [p] b" by (auto intro: intact_run.full)
      then show ?thesis by blast
    next
      case 2
      from collecting_open_run [OF 2(3)] obtain xs r where "ps = xs @ r" "open_run r g" by blast
      with 2 have "ps @ [p] = xs @ (r @ [p]) @ []" "intact_run (r @ [p]) b"
        by (auto intro: intact_run.chain)
      then show ?thesis by blast
    qed
  qed
qed

lemma assemble_run:
  "intact_run r b \<Longrightarrow> assemble s (xs @ r @ ys) = assemble s xs @ b # assemble Idle ys"
  using intact_run_reasm [of r b "reasm_end s xs"] by (simp add: assemble_append)

section \<open>Truncation\<close>

lemma scan_block_take: "prefix (scan_block E (take n bs)) (scan_block E bs)"
proof (induction E bs arbitrary: n rule: scan_block.induct)
  case (1 E bs)
  define len where "len = unat (u16_from_le_bytes (take 2 (drop 4 bs)))"
  define crc where "crc = u32_from_le_bytes (take 4 bs)"
  define rest where "rest = drop HEADER_SIZE bs"
  show ?case
  proof (cases "length (take n bs) < HEADER_SIZE")
    case True
    then show ?thesis by (simp add: scan_block_short)
  next
    case False
    then have n: "7 \<le> n" "7 \<le> length bs" by (auto simp: HEADER_SIZE_def)
    then have hd: "take 4 (take n bs) = take 4 bs" "take 2 (drop 4 (take n bs)) = take 2 (drop 4 bs)"
      "take n bs ! 6 = bs ! 6"
      by (auto simp: min_def drop_take)
    have dr: "drop HEADER_SIZE (take n bs) = take (n - 7) rest"
      by (simp add: rest_def HEADER_SIZE_def drop_take)
    show ?thesis
    proof (cases "(bs ! 6 = 0 \<and> len = 0 \<and> crc = 0) \<or> length (take (n - 7) rest) < len")
      case True
      then have "scan_block E (take n bs) = []"
        by (subst scan_block.simps)
          (auto simp: hd dr Let_def len_def crc_def simp del: take_take length_take)
      then show ?thesis by simp
    next
      case fits: False
      have "prefix (scan_block E (take (n - 7 - len) (drop len rest))) (scan_block E (drop len rest))"
        using "1.IH" [OF _ refl refl refl refl, of "n - 7 - len"] fits n
        by (auto simp: len_def crc_def rest_def HEADER_SIZE_def)
      moreover have l: "len \<le> length rest" "len \<le> n - 7" using fits by auto
      then have "scan_block E bs = Phys (bs ! 6) (take len rest)
          (record_crc E (bs ! 6) (take len rest) = crc) # scan_block E (drop len rest)"
        using fits n
        by (intro scan_block_cons) (auto simp: len_def crc_def rest_def HEADER_SIZE_def)
      moreover have "scan_block E (take n bs) = Phys (take n bs ! 6) (take len (take (n - 7) rest))
          (record_crc E (take n bs ! 6) (take len (take (n - 7) rest)) = crc)
            # scan_block E (drop len (take (n - 7) rest))"
        using fits n
        by (intro scan_block_cons)
          (auto simp: hd dr simp flip: len_def crc_def simp del: take_take length_take,
            auto simp: HEADER_SIZE_def)
      moreover have "min len (n - 7) = len" using l(2) by (rule min.absorb1)
      ultimately show ?thesis using hd(3) by (simp add: drop_take)
    qed
  qed
qed

lemma phys_records_take: "prefix (phys_records E (take n bs)) (phys_records E bs)"
proof (induction E bs arbitrary: n rule: phys_records.induct)
  case (1 E bs)
  consider "bs = [] \<or> n = 0" | "bs \<noteq> []" "0 < n" "n \<le> BLOCK_SIZE" | "bs \<noteq> []" "BLOCK_SIZE < n"
    by fastforce
  then show ?case
  proof cases
    case 1
    then show ?thesis by auto
  next
    case 2
    then have "phys_records E (take n bs) = scan_block E (take n (take BLOCK_SIZE bs))"
      using phys_records_step [of "take n bs" E] by (simp add: min.absorb1 min.absorb2)
    then show ?thesis
      using scan_block_take [of E n "take BLOCK_SIZE bs"] 2 phys_records_step [of bs E]
      by (auto intro: prefix_prefix)
  next
    case 3
    then have "phys_records E (take n bs) = scan_block E (take BLOCK_SIZE bs) @
        phys_records E (take (n - BLOCK_SIZE) (drop BLOCK_SIZE bs))"
      using phys_records_step [of "take n bs" E] by (simp add: min.absorb1 drop_take)
    with "1.IH" [OF 3(1), of "n - BLOCK_SIZE"] show ?thesis
      by (simp add: phys_records_step [OF 3(1)])
  qed
qed

lemma prefix_concat_map: "prefix xs ys \<Longrightarrow> prefix (concat (map f xs)) (concat (map f ys))"
  by (auto simp: prefix_def)

lemma log_batches_take: "prefix (log_batches E (take n buf)) (log_batches E buf)"
  using phys_records_take [of E n buf] by (auto simp: log_batches_def prefix_def assemble_append)

section \<open>Resynchronisation at block boundaries\<close>

lemma phys_records_blocks:
  "length g = k * BLOCK_SIZE \<Longrightarrow> phys_records E (g @ buf) = phys_records E g @ phys_records E buf"
proof (induction k arbitrary: g)
  case 0
  then show ?case by simp
next
  case (Suc k)
  then have len: "BLOCK_SIZE \<le> length g" and ne: "g \<noteq> []" "g @ buf \<noteq> []"
    by (auto simp: BLOCK_SIZE_def)
  have "phys_records E (g @ buf) =
      scan_block E (take BLOCK_SIZE g) @ phys_records E (drop BLOCK_SIZE g @ buf)"
    using phys_records_step [OF ne(2), of E] len by simp
  also have "phys_records E (drop BLOCK_SIZE g @ buf) =
      phys_records E (drop BLOCK_SIZE g) @ phys_records E buf"
    by (rule Suc.IH) (simp add: Suc.prems)
  finally show ?case using phys_records_step [OF ne(1), of E] by simp
qed

text \<open>The first physical record opens a logical record, as it does in any file a writer began.\<close>

fun opens :: "phys list \<Rightarrow> bool" where
  "opens [] \<longleftrightarrow> True"
| "opens (p # ps) \<longleftrightarrow> ptype p = REC_FULL \<or> ptype p = REC_FIRST"

lemma assemble_opens: "opens ps \<Longrightarrow> assemble s ps = assemble Idle ps"
  by (cases ps) (auto simp: reasm_step_def split: prod.splits option.splits)

lemma log_batches_blocks:
  assumes "length g = k * BLOCK_SIZE" "opens (phys_records E buf)"
  shows "log_batches E (g @ buf) = log_batches E g @ log_batches E buf"
  using assemble_opens [OF assms(2), of "reasm_end Idle (phys_records E g)"]
  by (simp add: log_batches_def phys_records_blocks [OF assms(1)] assemble_append)

end
