(* ===== verification/Wal_Batch.thy ===== *)
theory Wal_Batch
  imports Wal_Reassembly "HOL-Library.Sublist"
begin

text \<open>
  The batch decoder against the batch format: what it returns for an encoded batch, for a
  batch cut short, and the bounds on what it returns for any bytes at all.
\<close>

section \<open>Fields of the records of a batch\<close>

lemma read_op_fields:
  "read_op E origin base_seq i cur = Some (r, c) \<Longrightarrow>
     rec_seq r = saturating_add_u64 base_seq (as_u64 i) \<and> rec_origin r = origin \<and>
     (rec_deleted r \<longrightarrow> rec_value r = [])"
  by (auto simp: read_op_def Let_def split: option.splits prod.splits if_splits)

lemma ops_list_fields:
  "j < length (ops_list E origin base_seq n i cur) \<Longrightarrow>
     (let r = ops_list E origin base_seq n i cur ! j in
      rec_seq r = saturating_add_u64 base_seq (as_u64 (i + j)) \<and> rec_origin r = origin \<and>
      (rec_deleted r \<longrightarrow> rec_value r = []))"
proof (induction n arbitrary: i cur j)
  case 0
  then show ?case by simp
next
  case (Suc n)
  then show ?case
    using Suc.IH [of "j - 1" "Suc i"]
    by (cases j) (auto simp: Let_def dest: read_op_fields split: option.splits prod.splits)
qed

lemma length_ops_list: "length (ops_list E origin base_seq n i cur) \<le> n"
  by (induction n arbitrary: i cur) (auto split: option.splits prod.splits)

lemma batch_records_origin:
  assumes "r \<in> set (batch_records E origin b)" "length b \<le> usize_max E"
  shows "rec_origin r = origin"
proof (cases "length b < BATCH_HEADER_LEN")
  case True
  with assms show ?thesis by (simp add: batch_records_short)
next
  case False
  with assms show ?thesis
    using ops_list_fields by (fastforce simp: batch_records_header in_set_conv_nth Let_def)
qed

section \<open>Bounds\<close>

text \<open>Bytes a record must occupy in the batch it was read from: two and its key and value.\<close>

definition record_cost :: "record_t \<Rightarrow> nat" where
  "record_cost r = 2 + length (rec_key r) + length (rec_value r)"

lemma read_length_prefixed_cost:
  assumes "varint_progress E" "wf_cursor E c" "read_length_prefixed E what c = Ok (x, c')"
  shows "wf_cursor E c' \<and> remaining c' + 1 + length x \<le> remaining c"
proof -
  from assms(3) obtain len c1 where v: "read_varint_u64 E c = Ok (len, c1)"
    and t: "cur_take E (as_usize E (unat len)) what c1 = Ok (x, c')"
    by (rule read_length_prefixed_Ok)
  have w: "wf_cursor E c1" using varint_advances [OF assms(1,2) v] by simp
  have "remaining c1 + 1 \<le> remaining c" by (rule varint64_op.op_remaining [OF assms(1,2) v])
  moreover have "wf_cursor E c'" using take_op.op_advances [OF assms(1) w t] by simp
  moreover have "remaining c' + length x \<le> remaining c1"
    using t w by (auto simp: cur_take_Ok remaining_def wf_cursor_def)
  ultimately show ?thesis by linarith
qed

lemma read_op_cost:
  assumes E: "varint_progress E" "wf_cursor E cur"
    and "read_op E origin base_seq i cur = Some (r, c)"
  shows "wf_cursor E c \<and> remaining c + record_cost r \<le> remaining cur"
proof -
  from assms(3) obtain op c1 k c2 where op: "read_u8 E ''op type'' cur = Ok (op, c1)"
    and k: "read_length_prefixed E ''op key'' c1 = Ok (k, c2)"
    and r: "rec_key r = k" "(c = c2 \<and> rec_value r = []) \<or>
      (\<exists>v. read_length_prefixed E ''op value'' c2 = Ok (v, c) \<and> rec_value r = v)"
    by (auto simp: read_op_def Let_def split: option.splits prod.splits if_splits)
  have 1: "wf_cursor E c1" "remaining c1 + 1 \<le> remaining cur"
    using u8_op.op_advances [OF E op] u8_op.op_remaining [OF E op] by auto
  note 2 = read_length_prefixed_cost [OF E(1) 1(1) k]
  from r(2) show ?thesis
  proof
    assume "c = c2 \<and> rec_value r = []"
    with 1 2 r(1) show ?thesis by (auto simp: record_cost_def)
  next
    assume "\<exists>v. read_length_prefixed E ''op value'' c2 = Ok (v, c) \<and> rec_value r = v"
    with 1 2 r(1) read_length_prefixed_cost [OF E(1) conjunct1 [OF 2]] show ?thesis
      by (fastforce simp: record_cost_def)
  qed
qed

lemma ops_list_cost:
  "varint_progress E \<Longrightarrow> wf_cursor E cur \<Longrightarrow>
   sum_list (map record_cost (ops_list E origin base_seq n i cur)) \<le> remaining cur"
proof (induction n arbitrary: i cur)
  case 0
  then show ?case by simp
next
  case (Suc n)
  show ?case
  proof (cases "read_op E origin base_seq i cur")
    case (Some p)
    obtain r c where p: "p = (r, c)" by (cases p)
    from read_op_cost [OF Suc.prems] Some p Suc.IH [OF Suc.prems(1), of c "Suc i"]
    show ?thesis by fastforce
  qed simp
qed

lemma batch_records_cost:
  assumes "varint_progress E" "length b \<le> usize_max E"
  shows "sum_list (map record_cost (batch_records E origin b)) \<le> length b"
proof (cases "length b < BATCH_HEADER_LEN")
  case True
  then show ?thesis by (simp add: batch_records_short)
next
  case False
  then have b: "BATCH_HEADER_LEN \<le> length b" by simp
  have "wf_cursor E (advance 12 (cursor_new b))"
    using assms b by (intro wf_advance) (simp_all add: BATCH_HEADER_LEN_def)
  from ops_list_cost [OF assms(1) this] show ?thesis
    unfolding batch_records_header [OF b assms(2)]
    by (rule order_trans) (simp add: remaining_def)
qed

section \<open>A batch cut short\<close>

text \<open>
  integer-encoding: \<open>decode_var\<close> stops at the byte that ends a varint and does not look
  further, so what it reads from a truncated input it also reads from the whole.
\<close>

definition varint_prefix_stable :: "core_env \<Rightarrow> bool" where
  "varint_prefix_stable E \<longleftrightarrow>
     (\<forall>bs n r. decode_var E (take n bs) = Some r \<longrightarrow> decode_var E bs = Some r)"

text \<open>The same cursor over the first \<open>n\<close> bytes of its buffer.\<close>

definition cut :: "nat \<Rightarrow> cursor \<Rightarrow> cursor" where
  "cut n c = c\<lparr>cbuf := take n (cbuf c)\<rparr>"

lemma cut_simps [simp]: "cbuf (cut n c) = take n (cbuf c)" "cpos (cut n c) = cpos c"
  by (simp_all add: cut_def)

lemma rest_of_cut: "rest_of (cut n c) = take (n - cpos c) (rest_of c)"
  by (simp add: rest_of_def drop_take)

lemma cut_update: "(cut n c)\<lparr>cpos := p\<rparr> = cut n (c\<lparr>cpos := p\<rparr>)"
  by (simp add: cut_def)

lemma cur_take_cut:
  assumes "cur_take E k what (cut n c) = Ok (s, d)"
  shows "\<exists>c'. d = cut n c' \<and> cur_take E k what c = Ok (s, c')"
  using assms by (auto simp: cur_take_Ok cut_update drop_take min_def split: if_splits)

lemma read_u8_cut:
  assumes "read_u8 E what (cut n c) = Ok (x, d)"
  shows "\<exists>c'. d = cut n c' \<and> read_u8 E what c = Ok (x, c')"
  using assms by (auto simp: read_u8_Ok cut_update)

lemma read_varint_u64_cut:
  assumes "varint_prefix_stable E" "read_varint_u64 E (cut n c) = Ok (x, d)"
  shows "\<exists>c'. d = cut n c' \<and> read_varint_u64 E c = Ok (x, c')"
proof -
  from assms(2) obtain k where "decode_var E (take (n - cpos c) (rest_of c)) = Some (x, k)"
    and "d = cut n (c\<lparr>cpos := saturating_add E (cpos c) k\<rparr>)"
    by (auto simp: read_varint_u64_Ok rest_of_cut cut_update)
  moreover from this(1) have "decode_var E (rest_of c) = Some (x, k)"
    using assms(1) unfolding varint_prefix_stable_def by blast
  ultimately show ?thesis by (auto simp: read_varint_u64_Ok)
qed

lemma read_length_prefixed_cut:
  assumes E: "platform E" "varint_prefix_stable E" and len: "length (cbuf c) \<le> usize_max E"
    and r: "read_length_prefixed E what (cut n c) = Ok (x, d)"
  shows "\<exists>c'. d = cut n c' \<and> read_length_prefixed E what c = Ok (x, c')"
proof -
  from r obtain l d1 where v: "read_varint_u64 E (cut n c) = Ok (l, d1)"
    and t: "cur_take E (as_usize E (unat l)) what d1 = Ok (x, d)"
    and l: "l \<le> as_u64 (remaining d1)" by (rule read_length_prefixed_Ok)
  from read_varint_u64_cut [OF E(2) v] obtain c1 where c1: "d1 = cut n c1"
    "read_varint_u64 E c = Ok (l, c1)" by blast
  from cur_take_cut [OF t [unfolded c1(1)]] obtain c2 where c2: "d = cut n c2"
    "cur_take E (as_usize E (unat l)) what c1 = Ok (x, c2)" by blast
  have "cbuf c1 = cbuf c" using varint64_op.op_keeps_buf [OF c1(2)] .
  then have "remaining d1 \<le> remaining c1" "remaining c1 < 2 ^ 64"
    using len platform_bounds [OF E(1)] by (auto simp: c1(1) remaining_def)
  then have "as_u64 (remaining d1) \<le> as_u64 (remaining c1)"
    by (simp add: as_u64_def word_le_nat_alt unat_of_nat)
  with l have "\<not> as_u64 (remaining c1) < l" by simp
  with c1(2) c2 show ?thesis by (auto simp: read_length_prefixed_def Let_def)
qed

lemma read_op_cut:
  assumes E: "platform E" "varint_prefix_stable E" and len: "length (cbuf c) \<le> usize_max E"
    and "read_op E origin base_seq i (cut n c) = Some (r, d)"
  shows "\<exists>c'. d = cut n c' \<and> read_op E origin base_seq i c = Some (r, c') \<and> cbuf c' = cbuf c"
proof -
  from assms(4) obtain op d1 k d2 where op: "read_u8 E ''op type'' (cut n c) = Ok (op, d1)"
      "op = OP_VALUE \<or> op = OP_DELETE"
    and k: "read_length_prefixed E ''op key'' d1 = Ok (k, d2)"
    by (auto simp: read_op_def Let_def split: option.splits prod.splits if_splits)
  from read_u8_cut [OF op(1)] obtain c1 where c1: "d1 = cut n c1" "read_u8 E ''op type'' c = Ok (op, c1)"
    by blast
  have b1: "cbuf c1 = cbuf c" by (rule u8_op.op_keeps_buf [OF c1(2)])
  from read_length_prefixed_cut [OF E _ k [unfolded c1(1)]] b1 len
  obtain c2 where c2: "d2 = cut n c2" "read_length_prefixed E ''op key'' c1 = Ok (k, c2)" by auto
  have b2: "cbuf c2 = cbuf c" using prefixed_op.op_keeps_buf [OF c2(2)] b1 by simp
  show ?thesis
  proof (cases "op = OP_DELETE")
    case True
    with assms(4) op k c1 c2 b2 show ?thesis by (auto simp: read_op_def Let_def)
  next
    case False
    with assms(4) op k obtain v where v: "read_length_prefixed E ''op value'' d2 = Ok (v, d)"
      by (auto simp: read_op_def Let_def split: option.splits prod.splits if_splits)
    from read_length_prefixed_cut [OF E _ v [unfolded c2(1)]] b2 len
    obtain c3 where c3: "d = cut n c3" "read_length_prefixed E ''op value'' c2 = Ok (v, c3)" by auto
    have "cbuf c3 = cbuf c" using prefixed_op.op_keeps_buf [OF c3(2)] b2 by simp
    with False assms(4) op k v c1 c2 c3 show ?thesis by (auto simp: read_op_def Let_def)
  qed
qed

lemma ops_list_cut:
  assumes "platform E" "varint_prefix_stable E"
  shows "length (cbuf c) \<le> usize_max E \<Longrightarrow>
    prefix (ops_list E origin base_seq m i (cut n c)) (ops_list E origin base_seq m i c)"
proof (induction m arbitrary: i c)
  case 0
  show ?case by simp
next
  case (Suc m)
  show ?case
  proof (cases "read_op E origin base_seq i (cut n c)")
    case (Some p)
    obtain r d where p: "p = (r, d)" by (cases p)
    from read_op_cut [OF assms Suc.prems Some [unfolded p]] obtain c' where
      "d = cut n c'" "read_op E origin base_seq i c = Some (r, c')" "cbuf c' = cbuf c" by blast
    with Some p Suc.IH [of c' "Suc i"] Suc.prems show ?thesis by simp
  qed simp
qed

lemma batch_records_cut:
  assumes "platform E" "varint_prefix_stable E" "length b \<le> usize_max E"
  shows "prefix (batch_records E origin (take n b)) (batch_records E origin b)"
proof (cases "length (take n b) < BATCH_HEADER_LEN")
  case True
  then show ?thesis by (simp add: batch_records_short)
next
  case False
  then have n: "12 \<le> n" "12 \<le> length b" by (auto simp: BATCH_HEADER_LEN_def)
  then have "take 8 (take n b) = take 8 b" "take 4 (drop 8 (take n b)) = take 4 (drop 8 b)"
    by (auto simp: drop_take min.absorb1)
  moreover have c: "cut n (advance 12 (cursor_new b)) = advance 12 (cursor_new (take n b))"
    by (simp add: cursor_new_def advance_def cut_def)
  ultimately show ?thesis
    using n False assms(3)
      ops_list_cut [OF assms(1,2), where c = "advance 12 (cursor_new b)" and n = n, unfolded c]
    by (simp add: batch_records_header BATCH_HEADER_LEN_def del: take_take)
qed

section \<open>The batch format\<close>

datatype op = Put (op_key: bytes) (op_value: bytes) | Delete (op_key: bytes)

fun encode_op :: "op \<Rightarrow> bytes" where
  "encode_op (Put k v) = OP_VALUE # length_prefixed k @ length_prefixed v"
| "encode_op (Delete k) = OP_DELETE # length_prefixed k"

definition encode_batch :: "u64 \<Rightarrow> op list \<Rightarrow> bytes" where
  "encode_batch seq ops = to_le 8 (unat seq) @ to_le 4 (length ops) @ concat (map encode_op ops)"

text \<open>The record an operation stands for, and those of a batch: operation \<open>i\<close> has sequence \<open>seq + i\<close>.\<close>

fun op_record :: "path \<Rightarrow> u64 \<Rightarrow> op \<Rightarrow> record_t" where
  "op_record origin seq (Put k v) =
     \<lparr>rec_key = k, rec_value = v, rec_seq = seq, rec_deleted = False, rec_origin = origin\<rparr>"
| "op_record origin seq (Delete k) =
     \<lparr>rec_key = k, rec_value = [], rec_seq = seq, rec_deleted = True, rec_origin = origin\<rparr>"

definition op_records :: "path \<Rightarrow> u64 \<Rightarrow> op list \<Rightarrow> record_t list" where
  "op_records origin seq ops =
     map (\<lambda>(i, op). op_record origin (saturating_add_u64 seq (as_u64 i)) op) (enumerate 0 ops)"

lemma read_op_encoded:
  assumes "platform E" "varint_leb128 E" "wf_cursor E c" "rest_of c = encode_op op @ r"
  shows "read_op E origin base_seq i c =
    Some (op_record origin (saturating_add_u64 base_seq (as_u64 i)) op,
          advance (length (encode_op op)) c)"
proof (cases op)
  case (Put k v)
  have rest: "rest_of c = OP_VALUE # length_prefixed k @ length_prefixed v @ r"
    using assms(4) Put by simp
  have w: "wf_cursor E (advance n c)" if "n \<le> length (rest_of c)" for n
    using that assms(3) by (rule wf_advance [rotated])
  have "read_u8 E ''op type'' c = Ok (OP_VALUE, advance 1 c)"
    by (rule read_u8_prefix [OF assms(3) rest])
  moreover have "read_length_prefixed E ''op key'' (advance 1 c) =
      Ok (k, advance (length (length_prefixed k)) (advance 1 c))"
    by (rule read_length_prefixed_prefix [OF assms(1,2)]) (auto simp: rest intro: w)
  moreover have "read_length_prefixed E ''op value'' (advance (length (length_prefixed k)) (advance 1 c)) =
      Ok (v, advance (length (length_prefixed v)) (advance (length (length_prefixed k)) (advance 1 c)))"
    by (rule read_length_prefixed_prefix [OF assms(1,2)]) (auto simp: rest intro: w)
  ultimately show ?thesis
    by (simp add: read_op_def Put Let_def OP_VALUE_def OP_DELETE_def add.assoc)
next
  case (Delete k)
  have rest: "rest_of c = OP_DELETE # length_prefixed k @ r" using assms(4) Delete by simp
  have "read_u8 E ''op type'' c = Ok (OP_DELETE, advance 1 c)"
    by (rule read_u8_prefix [OF assms(3) rest])
  moreover have "read_length_prefixed E ''op key'' (advance 1 c) =
      Ok (k, advance (length (length_prefixed k)) (advance 1 c))"
    by (rule read_length_prefixed_prefix [OF assms(1,2)]) (auto simp: rest intro: wf_advance [OF assms(3)])
  ultimately show ?thesis
    by (simp add: read_op_def Delete Let_def OP_VALUE_def OP_DELETE_def)
qed

lemma ops_list_encoded:
  assumes "platform E" "varint_leb128 E"
  shows "wf_cursor E c \<Longrightarrow> rest_of c = concat (map encode_op ops) @ r \<Longrightarrow>
    ops_list E origin base_seq (length ops) i c =
      map (\<lambda>(j, op). op_record origin (saturating_add_u64 base_seq (as_u64 j)) op) (enumerate i ops)"
proof (induction ops arbitrary: i c)
  case Nil
  show ?case by simp
next
  case (Cons op ops)
  have rest: "rest_of c = encode_op op @ concat (map encode_op ops) @ r" using Cons.prems(2) by simp
  have "wf_cursor E (advance (length (encode_op op)) c)"
    using Cons.prems by (intro wf_advance) (simp_all add: rest)
  moreover have "rest_of (advance (length (encode_op op)) c) = concat (map encode_op ops) @ r"
    by (simp add: rest)
  ultimately show ?case
    using read_op_encoded [OF assms Cons.prems(1) rest] Cons.IH [of "advance (length (encode_op op)) c" "Suc i"]
    by simp
qed

lemma batch_records_encoded:
  assumes "platform E" "varint_leb128 E" "length ops < 2 ^ 32"
    and "length (encode_batch seq ops) \<le> usize_max E"
  shows "batch_records E origin (encode_batch seq ops) = op_records origin seq ops"
proof -
  let ?b = "encode_batch seq ops"
  have "u64_from_le_bytes (take 8 ?b) = seq"
    by (simp add: encode_batch_def le_simps)
  moreover have "unat (u32_from_le_bytes (take 4 (drop 8 ?b))) = length ops"
    using assms(3) by (simp add: encode_batch_def le_simps)
  moreover have "rest_of (advance 12 (cursor_new ?b)) = concat (map encode_op ops) @ []"
    by (simp add: encode_batch_def)
  moreover have "wf_cursor E (advance 12 (cursor_new ?b))"
    using assms(4) by (intro wf_advance) (simp_all add: encode_batch_def)
  ultimately show ?thesis
    using assms(4) ops_list_encoded [OF assms(1,2), of "advance 12 (cursor_new ?b)" ops "[]"]
    by (simp add: batch_records_header BATCH_HEADER_LEN_def op_records_def encode_batch_def)
qed

end
