(* ===== verification/Sstable.thy ===== *)
theory Sstable
  imports Byte_Cursor
begin

text \<open>
  The SSTable reader, leveldb-core/src/sstable.rs: footer, block handles, blocks (range,
  crc, compression), the prefix-compressed entries of a block, internal keys, and
  \<open>parse_table\<close>, which walks from the footer through the index block to every data block.
\<close>

unbundle bit_operations_syntax

definition FOOTER_LEN :: nat where "FOOTER_LEN = 48"
definition MAGIC_OFFSET :: nat where "MAGIC_OFFSET = 40"
definition TABLE_MAGIC :: u64 where "TABLE_MAGIC = 0xdb4775248b80fb57"
definition BLOCK_TRAILER_LEN :: nat where "BLOCK_TRAILER_LEN = 5"
definition COMPRESSION_NONE :: u8 where "COMPRESSION_NONE = 0"
definition COMPRESSION_SNAPPY :: u8 where "COMPRESSION_SNAPPY = 1"
definition TYPE_DELETION :: u8 where "TYPE_DELETION = 0"
definition INTERNAL_KEY_TRAILER :: nat where "INTERNAL_KEY_TRAILER = 8"
definition MAX_DECOMPRESSED_BLOCK :: nat where "MAX_DECOMPRESSED_BLOCK = 268435456"
definition SST_CRC_MASK_DELTA :: u32 where "SST_CRC_MASK_DELTA = 0xa282ead8"

lemmas sst_len_defs =
  FOOTER_LEN_def MAGIC_OFFSET_def BLOCK_TRAILER_LEN_def INTERNAL_KEY_TRAILER_def

record block_handle =
  bh_offset :: u64
  bh_size :: u64

type_synonym entry = "bytes \<times> bytes"

definition sst_mask_crc :: "u32 \<Rightarrow> u32" where
  "sst_mask_crc crc = word_rotl 17 crc + SST_CRC_MASK_DELTA"

definition read_block_handle ::
    "core_env \<Rightarrow> cursor \<Rightarrow> (error, block_handle \<times> cursor) outcome" where
  "read_block_handle E cur =
     bind (read_varint_u64 E cur) (\<lambda>(off, cur).
     bind (read_varint_u64 E cur) (\<lambda>(sz, cur).
     Ok (\<lparr>bh_offset = off, bh_size = sz\<rparr>, cur)))"

definition parse_footer :: "core_env \<Rightarrow> bytes \<Rightarrow> (error, block_handle) outcome" where
  "parse_footer E buf =
     (if length buf < FOOTER_LEN then Err (UnexpectedEof ''SSTable footer'' 0)
      else
        let foot_off = length buf - FOOTER_LEN in
        bind (slice buf foot_off (length buf)) (\<lambda>footer.
        bind (slice footer MAGIC_OFFSET (MAGIC_OFFSET + 8)) (\<lambda>magic_bytes.
        if length magic_bytes \<noteq> 8 then
          bind (plus_usize E foot_off MAGIC_OFFSET) (\<lambda>off.
          Err (UnexpectedEof ''SSTable footer magic'' off))
        else if u64_from_le_bytes magic_bytes \<noteq> TABLE_MAGIC then
          bind (plus_usize E foot_off MAGIC_OFFSET) (\<lambda>off. Err (BadTableMagic magic_bytes off))
        else
          bind (slice footer 0 MAGIC_OFFSET) (\<lambda>handles.
          bind (read_block_handle E (cursor_new handles)) (\<lambda>(metaindex, cur).
          bind (read_block_handle E cur) (\<lambda>(index, cur).
          Ok index))))))"

text \<open>The \<open>match type_byte\<close> of \<open>read_block\<close>.\<close>

definition decode_block ::
    "core_env \<Rightarrow> u8 \<Rightarrow> bytes \<Rightarrow> nat \<Rightarrow> nat \<Rightarrow> (error, bytes) outcome" where
  "decode_block E type_byte dat off sz =
     (if type_byte = COMPRESSION_NONE then Ok dat
      else if type_byte = COMPRESSION_SNAPPY then
        bind (ok_or (decompress_len E dat)
                (LengthOutOfRange ''snappy block'' 0 (as_u64 MAX_DECOMPRESSED_BLOCK) off)) (\<lambda>out_len.
        if MAX_DECOMPRESSED_BLOCK < out_len then
          Err (LengthOutOfRange ''snappy decompressed block'' (as_u64 out_len)
                 (as_u64 MAX_DECOMPRESSED_BLOCK) off)
        else
          ok_or (decompress_vec E dat)
            (LengthOutOfRange ''snappy block'' (as_u64 out_len) (as_u64 MAX_DECOMPRESSED_BLOCK) off))
      else bind (plus_usize E off sz) (\<lambda>o'. Err (UnknownCompression type_byte o')))"

definition read_block :: "core_env \<Rightarrow> bytes \<Rightarrow> block_handle \<Rightarrow> (error, bytes) outcome" where
  "read_block E buf handle =
     bind (ok_or (usize_try_from E (bh_offset handle))
             (LengthOutOfRange ''block offset'' (bh_offset handle) (as_u64 (length buf)) 0)) (\<lambda>off.
     bind (ok_or (usize_try_from E (bh_size handle))
             (LengthOutOfRange ''block size'' (bh_size handle) (as_u64 (length buf)) off)) (\<lambda>sz.
     bind (ok_or (case checked_add E off sz of None \<Rightarrow> None
                  | Some e \<Rightarrow> checked_add E e BLOCK_TRAILER_LEN)
             (LengthOutOfRange ''block extent'' (bh_size handle) (as_u64 (length buf)) off)) (\<lambda>end_pos.
     bind (ok_or (get_range buf off end_pos)
             (LengthOutOfRange ''block'' (bh_size handle) (as_u64 (length buf - off)) off)) (\<lambda>region.
     bind (slice region 0 sz) (\<lambda>dat.
     bind (idx region [sz]) (\<lambda>type_byte.
     bind (idx region [sz + 1, sz + 2, sz + 3, sz + 4]) (\<lambda>crc_bytes.
     let stored_crc = u32_from_le_bytes crc_bytes in
     bind (slice region 0 (sz + 1)) (\<lambda>covered.
     let computed = sst_mask_crc (crc32c E covered) in
     if computed \<noteq> stored_crc then Err (BadBlockCrc stored_crc computed off)
     else decode_block E (hd type_byte) dat off sz))))))))"

section \<open>Entries of a block\<close>

text \<open>
  The \<open>while !cur.is_empty()\<close> of \<open>parse_block_entries\<close>. The rounds are bounded by \<open>fuel\<close>;
  the caller supplies one more than the entries have bytes, and a round consumes three bytes
  at least when \<open>decode_var\<close> consumes one.
\<close>

fun entries_loop ::
    "core_env \<Rightarrow> nat \<Rightarrow> cursor \<Rightarrow> bytes \<Rightarrow> entry list \<Rightarrow> (error, entry list) outcome" where
  "entries_loop E 0 cur prev_key out = Diverge"
| "entries_loop E (Suc fuel) cur prev_key out =
     (if is_empty cur then Ok out
      else
        let pos = cpos cur in
        bind (read_varint_u32 E cur) (\<lambda>(shared, cur).
        let shared = as_usize E (unat shared) in
        bind (read_varint_u32 E cur) (\<lambda>(non_shared, cur).
        let non_shared = as_usize E (unat non_shared) in
        bind (read_varint_u32 E cur) (\<lambda>(value_len, cur).
        let value_len = as_usize E (unat value_len) in
        if length prev_key < shared then
          Err (LengthOutOfRange ''shared key prefix'' (as_u64 shared) (as_u64 (length prev_key)) pos)
        else
          bind (cur_take E non_shared ''entry key delta'' cur) (\<lambda>(key_delta, cur).
          bind (cur_take E value_len ''entry value'' cur) (\<lambda>(val, cur).
          bind (plus_usize E shared non_shared) (\<lambda>cap.
          bind (with_capacity E cap) (\<lambda>_.
          bind (slice prev_key 0 shared) (\<lambda>pre.
          let key = pre @ key_delta in
          entries_loop E fuel cur key (out @ [(key, val)]))))))))))"

definition parse_block_entries :: "core_env \<Rightarrow> bytes \<Rightarrow> (error, entry list) outcome" where
  "parse_block_entries E block =
     (if length block < 4 then Err (UnexpectedEof ''block restart count'' 0)
      else
        let n_off = length block - 4 in
        bind (idx block [n_off, n_off + 1, n_off + 2, n_off + 3]) (\<lambda>ys.
        let num_restarts = as_usize E (unat (u32_from_le_bytes ys)) in
        bind (ok_or (checked_mul E num_restarts 4)
                (LengthOutOfRange ''restart array'' (as_u64 num_restarts) (as_u64 n_off) n_off))
          (\<lambda>restart_bytes.
        bind (ok_or (checked_sub n_off restart_bytes)
                (LengthOutOfRange ''restart array'' (as_u64 restart_bytes) (as_u64 n_off) n_off))
          (\<lambda>entries_end.
        bind (slice block 0 entries_end) (\<lambda>body.
        entries_loop E (Suc (length body)) (cursor_new body) [] [])))))"

section \<open>Internal keys\<close>

definition split_internal_key :: "bytes \<Rightarrow> (error, (bytes \<times> u64 \<times> bool) option) outcome" where
  "split_internal_key internal =
     (if length internal < INTERNAL_KEY_TRAILER then Ok None
      else
        let n = length internal - INTERNAL_KEY_TRAILER in
        bind (slice internal n (length internal)) (\<lambda>trailer_bytes.
        if length trailer_bytes \<noteq> 8 then Ok None
        else
          let trailer = u64_from_le_bytes trailer_bytes;
              seq = drop_bit 8 trailer;
              value_type = (ucast (trailer AND 0xff) :: u8)
          in bind (slice internal 0 n) (\<lambda>user_key.
             Ok (Some (user_key, seq, value_type = TYPE_DELETION)))))"

section \<open>The whole table\<close>

text \<open>The inner \<open>for (internal_key, value)\<close> of \<open>parse_table\<close>.\<close>

fun push_entries ::
    "path \<Rightarrow> entry list \<Rightarrow> record_t list \<Rightarrow> (error, record_t list) outcome" where
  "push_entries origin [] records = Ok records"
| "push_entries origin ((internal_key, val) # es) records =
     bind (split_internal_key internal_key) (\<lambda>k.
     case k of
       None \<Rightarrow> push_entries origin es records
     | Some (user_key, seq, deleted) \<Rightarrow>
         push_entries origin es
           (records @ [\<lparr>rec_key = user_key, rec_value = val, rec_seq = seq, rec_deleted = deleted,
                        rec_origin = origin\<rparr>]))"

text \<open>The outer \<open>for (_index_key, handle_bytes)\<close>.\<close>

fun table_loop ::
    "core_env \<Rightarrow> bytes \<Rightarrow> path \<Rightarrow> entry list \<Rightarrow> record_t list \<Rightarrow> (error, record_t list) outcome" where
  "table_loop E buf origin [] records = Ok records"
| "table_loop E buf origin ((index_key, handle_bytes) # es) records =
     bind (read_block_handle E (cursor_new handle_bytes)) (\<lambda>(data_handle, cur).
     bind (read_block E buf data_handle) (\<lambda>data_block.
     bind (parse_block_entries E data_block) (\<lambda>entries.
     bind (push_entries origin entries records) (\<lambda>records.
     table_loop E buf origin es records))))"

definition parse_table :: "core_env \<Rightarrow> bytes \<Rightarrow> path \<Rightarrow> (error, record_t list) outcome" where
  "parse_table E buf origin =
     bind (parse_footer E buf) (\<lambda>index_handle.
     bind (read_block E buf index_handle) (\<lambda>index_block.
     bind (parse_block_entries E index_block) (\<lambda>index_entries.
     table_loop E buf origin index_entries [])))"

end
