(* ===== verification/Sstable_Safety.thy ===== *)
theory Sstable_Safety
  imports Sstable
begin

text \<open>
  Total correctness of the SSTable reader: on every input each function returns a value or a
  typed error, and what it returns is bounded by its input. The hypotheses are the target's
  \<open>usize\<close>, the length of a Rust slice, that a decoded varint is not empty, and that snap
  returns as many bytes as it announced.
\<close>

section \<open>Footer and blocks\<close>

lemma read_block_handle_returns: "returns (read_block_handle E c)"
  using read_varint_u64_returns
  by (auto simp: read_block_handle_def outcome_wp intro!: yields_mono [OF read_varint_u64_returns])

lemma read_block_handle_Ok:
  assumes "read_block_handle E c = Ok (h, c')"
  obtains x c1 y where "read_varint_u64 E c = Ok (x, c1)" "read_varint_u64 E c1 = Ok (y, c')"
    "h = \<lparr>bh_offset = x, bh_size = y\<rparr>"
  using assms by (auto simp: read_block_handle_def bind_eq_Ok)

interpretation handle_op: cursor_op read_block_handle 2
proof unfold_locales
  fix E c
  show "returns (read_block_handle E c)" by (rule read_block_handle_returns)
next
  fix E c h c'
  assume "read_block_handle E c = Ok (h, c')"
  then show "cbuf c' = cbuf c"
    by (rule read_block_handle_Ok) (simp add: varint64_op.op_keeps_buf)
next
  fix E c h c'
  assume E: "varint_progress E" "wf_cursor E c" and "read_block_handle E c = Ok (h, c')"
  from this(3) show "cpos c + 2 \<le> cpos c' \<and> wf_cursor E c'"
  proof (rule read_block_handle_Ok)
    fix x c1 y
    assume r: "read_varint_u64 E c = Ok (x, c1)" "read_varint_u64 E c1 = Ok (y, c')"
    from varint_advances [OF E r(1)] have w: "cpos c + 1 \<le> cpos c1" "wf_cursor E c1" by auto
    from varint_advances [OF E(1) w(2) r(2)] w(1) show ?thesis by auto
  qed
qed

lemma parse_footer_returns:
  assumes "length buf \<le> usize_max E"
  shows "returns (parse_footer E buf)"
proof -
  have "returns (bind (read_block_handle E c) (\<lambda>(m, cur). bind (read_block_handle E cur) (\<lambda>(i, cur). Ok i)))"
    for c
    by (auto simp: outcome_wp intro!: yields_mono [OF read_block_handle_returns])
  with assms show ?thesis
    by (auto simp: parse_footer_def outcome_wp Let_def sst_len_defs)
qed

lemma max_block_isize: "platform E \<Longrightarrow> MAX_DECOMPRESSED_BLOCK \<le> isize_max E"
  using platform_bounds [of E] by (simp add: MAX_DECOMPRESSED_BLOCK_def)

lemma decode_block_yields:
  assumes "snappy_length E" "off + sz \<le> usize_max E"
  shows "yields (decode_block E t dat off sz) (\<lambda>d. length d \<le> max (length dat) MAX_DECOMPRESSED_BLOCK)"
  using assms by (fastforce simp: decode_block_def outcome_wp snappy_length_def)

lemma read_block_yields:
  assumes E: "snappy_length E"
  shows "yields (read_block E buf h) (\<lambda>d. length d \<le> max (length buf) MAX_DECOMPRESSED_BLOCK)"
proof -
  have "yields (decode_block E t (take sz (take (sz + BLOCK_TRAILER_LEN) (drop off buf))) off sz)
      (\<lambda>d. length d \<le> max (length buf) MAX_DECOMPRESSED_BLOCK)"
    if "off + sz \<le> usize_max E" for t off sz
    by (rule yields_mono [OF decode_block_yields [OF E that]]) auto
  then show ?thesis
    by (auto simp: read_block_def outcome_wp Let_def checked_add_eq_Some get_range_eq_Some
        BLOCK_TRAILER_LEN_def split: option.splits)
qed

section \<open>Entries\<close>

text \<open>What a well-formed call of the loop returns: the entries so far and new, bounded ones.\<close>

definition entries_bounded :: "nat \<Rightarrow> entry list \<Rightarrow> entry list \<Rightarrow> bool" where
  "entries_bounded n out es \<longleftrightarrow>
     (\<exists>new. es = out @ new \<and> (\<forall>(k, v) \<in> set new. length k \<le> n \<and> length v \<le> n))"

lemma entries_loop_yields:
  assumes E: "varint_progress E"
  shows "wf_cursor E cur \<Longrightarrow> buffer_ok E (cbuf cur) \<Longrightarrow> length prev \<le> cpos cur \<Longrightarrow> remaining cur < fuel \<Longrightarrow>
    yields (entries_loop E fuel cur prev out) (entries_bounded (length (cbuf cur)) out)"
proof (induction fuel arbitrary: cur prev out)
  case 0
  then show ?case by simp
next
  case (Suc fuel)
  show ?case
  proof (cases "is_empty cur")
    case True
    then show ?thesis by (simp add: entries_bounded_def)
  next
    case False
    note varint = varint32_op.op_yields [OF E]
    have rest: "yields (entries_loop E fuel c4 (take sh prev @ kd) (out @ [(take sh prev @ kd, v)]))
        (entries_bounded (length (cbuf cur)) out)"
      if "cbuf c4 = cbuf cur" "cpos cur + 3 + length kd + length v \<le> cpos c4" "wf_cursor E c4"
      for c4 sh kd v
    proof -
      have "length (take sh prev @ kd) \<le> cpos c4" using that Suc.prems(3) by auto
      moreover have "remaining c4 < fuel"
        using that Suc.prems(4) by (auto simp: remaining_def wf_cursor_def)
      ultimately have "yields (entries_loop E fuel c4 (take sh prev @ kd) (out @ [(take sh prev @ kd, v)]))
          (entries_bounded (length (cbuf cur)) (out @ [(take sh prev @ kd, v)]))"
        using Suc.IH [of c4] that(1,3) Suc.prems(2) by simp
      then show ?thesis
        by (rule yields_mono) (use that Suc.prems(3) in \<open>fastforce simp: entries_bounded_def wf_cursor_def\<close>)
    qed
    have fin: "sh + ns \<le> isize_max E \<and> sh + ns \<le> usize_max E \<and>
        yields (entries_loop E fuel (c3\<lparr>cpos := cpos c3 + ns + vl\<rparr>)
            (take sh prev @ take ns (drop (cpos c3) (cbuf cur)))
            (out @ [(take sh prev @ take ns (drop (cpos c3) (cbuf cur)),
                     take vl (drop (cpos c3 + ns) (cbuf cur)))]))
          (entries_bounded (length (cbuf cur)) out)"
      if c3: "cbuf c3 = cbuf cur" "cpos cur + 3 \<le> cpos c3" "wf_cursor E c3"
        and "sh \<le> length prev" "cpos c3 + ns + vl \<le> length (cbuf cur)"
      for c3 sh ns vl
    proof -
      have "sh + ns \<le> isize_max E" using that Suc.prems(2,3) by (simp add: buffer_ok_def)
      moreover have "wf_cursor E (c3\<lparr>cpos := cpos c3 + ns + vl\<rparr>)"
        using that by (simp add: wf_cursor_def)
      ultimately show ?thesis using that by (auto simp: isize_le_usize intro!: rest)
    qed
    show ?thesis
      using False Suc.prems
      apply (simp add: outcome_wp Let_def split_beta)
      apply (rule yields_mono [OF varint], assumption)
      apply (rule yields_mono [OF varint], simp add: advances_def Let_def)
      apply (rule yields_mono [OF varint], simp add: advances_def Let_def)
      using fin by (auto simp: advances_def Let_def split_beta not_less outcome_wp)
  qed
qed

declare entries_loop.simps [simp del]

lemma parse_block_entries_yields:
  assumes E: "platform E" "varint_progress E" and block: "buffer_ok E block"
  shows "yields (parse_block_entries E block)
    (\<lambda>es. \<forall>(k, v) \<in> set es. length k \<le> length block \<and> length v \<le> length block)"
proof -
  have loop: "yields (entries_loop E (Suc n) (cursor_new body) [] [])
      (\<lambda>es. \<forall>(k, v) \<in> set es. length k \<le> length block \<and> length v \<le> length block)"
    if "length body \<le> length block" "n = length body" for n body
  proof -
    have "buffer_ok E body" using that block by (simp add: buffer_ok_def)
    then show ?thesis
      by (intro yields_mono [OF entries_loop_yields [OF E(2)]])
        (use that in \<open>auto simp: entries_bounded_def remaining_def intro: buffer_ok_usize order_trans\<close>)
  qed
  then show ?thesis
    by (auto simp: parse_block_entries_def outcome_wp Let_def checked_sub_def
        split: if_splits intro!: loop)
qed

section \<open>The table\<close>

lemma split_internal_key_eq:
  "split_internal_key internal =
     Ok (if length internal < 8 then None
         else let n = length internal - 8; w = u64_from_le_bytes (drop n internal)
              in Some (take n internal, drop_bit 8 w, (ucast (w AND 0xff) :: u8) = TYPE_DELETION))"
  by (simp add: split_internal_key_def INTERNAL_KEY_TRAILER_def slice_Ok Let_def)

text \<open>The record of an entry: none when the key has no room for its trailer.\<close>

definition entry_record :: "path \<Rightarrow> entry \<Rightarrow> record_t option" where
  "entry_record origin e =
     (let (k, v) = e; n = length k - 8; w = u64_from_le_bytes (drop n k) in
      if length k < 8 then None
      else Some \<lparr>rec_key = take n k, rec_value = v, rec_seq = drop_bit 8 w,
                 rec_deleted = ((ucast (w AND 0xff) :: u8) = TYPE_DELETION), rec_origin = origin\<rparr>)"

lemma push_entries_eq:
  "push_entries origin es records = Ok (records @ List.map_filter (entry_record origin) es)"
proof (induction es arbitrary: records)
  case Nil
  show ?case by (simp add: map_filter_simps)
next
  case (Cons e es)
  then show ?case
    by (cases e) (auto simp: split_internal_key_eq entry_record_def Let_def map_filter_simps)
qed

lemma table_loop_returns:
  assumes E: "platform E" "varint_progress E" "snappy_length E" and buf: "buffer_ok E buf"
  shows "returns (table_loop E buf origin es records)"
proof (induction es arbitrary: records)
  case Nil
  show ?case by simp
next
  case (Cons e es)
  have block: "returns (bind (parse_block_entries E d) (\<lambda>entries.
      bind (push_entries origin entries records) (\<lambda>rs. table_loop E buf origin es rs)))"
    if "length d \<le> max (length buf) MAX_DECOMPRESSED_BLOCK" for d
  proof -
    have "buffer_ok E d"
      using that buf max_block_isize [OF E(1)] by (auto simp: buffer_ok_def max_def split: if_splits)
    then show ?thesis
      unfolding yields_bind
      by (intro yields_mono [OF parse_block_entries_yields [OF E(1,2)]])
        (simp_all add: push_entries_eq Cons.IH)
  qed
  show ?case
    by (cases e) (auto simp: outcome_wp block [unfolded yields_bind]
        intro!: yields_mono [OF read_block_handle_returns] yields_mono [OF read_block_yields [OF E(3)]])
qed

lemma parse_table_returns:
  assumes E: "platform E" "varint_progress E" "snappy_length E" and buf: "buffer_ok E buf"
  shows "returns (parse_table E buf origin)"
  unfolding parse_table_def yields_bind
proof (rule yields_mono [OF parse_footer_returns [OF buffer_ok_usize [OF buf]]],
    rule yields_mono [OF read_block_yields [OF E(3)]])
  fix h and d :: bytes
  assume "length d \<le> max (length buf) MAX_DECOMPRESSED_BLOCK"
  then have "buffer_ok E d"
    using buf max_block_isize [OF E(1)] by (auto simp: buffer_ok_def max_def split: if_splits)
  from parse_block_entries_yields [OF E(1,2) this]
  show "yields (parse_block_entries E d) (\<lambda>es. returns (table_loop E buf origin es []))"
    by (rule yields_mono) (rule table_loop_returns [OF E buf])
qed

end
