(* ===== verification/Table_Format.thy ===== *)
theory Table_Format
  imports Sstable_Safety
begin

text \<open>
  The SSTable format as a writer, following the layout comment of sstable.rs, and the reader
  as its inverse: prefix-compressed entries with any admissible sharing, blocks with their
  trailer, uncompressed or compressed by a function \<open>compress\<close> that snap inverts, the index
  block, and the footer.
\<close>

section \<open>Entries\<close>

text \<open>An entry to write: how much of the previous key it shares, its key and its value.\<close>

type_synonym wentry = "nat \<times> bytes \<times> bytes"

fun encode_entries :: "bytes \<Rightarrow> wentry list \<Rightarrow> bytes" where
  "encode_entries prev [] = []"
| "encode_entries prev ((s, k, v) # es) =
     leb128 (as_u64 s) @ leb128 (as_u64 (length k - s)) @ leb128 (as_u64 (length v))
       @ drop s k @ v @ encode_entries k es"

fun shares_ok :: "bytes \<Rightarrow> wentry list \<Rightarrow> bool" where
  "shares_ok prev [] \<longleftrightarrow> True"
| "shares_ok prev ((s, k, v) # es) \<longleftrightarrow>
     s \<le> length prev \<and> s \<le> length k \<and> take s prev = take s k \<and> length k < 2 ^ 32 \<and> length v < 2 ^ 32
       \<and> shares_ok k es"

definition encode_block :: "wentry list \<Rightarrow> nat list \<Rightarrow> bytes" where
  "encode_block es restarts =
     encode_entries [] es @ concat (map (to_le 4) restarts) @ to_le 4 (length restarts)"

lemma as_usize_u32:
  "platform E \<Longrightarrow> n < 2 ^ 32 \<Longrightarrow> as_usize E (unat (word_of_nat n :: u32)) = n"
  using platform_bounds [of E] by (simp add: unat_of_nat)

text \<open>Reading one written entry.\<close>

lemma entry_prefix:
  assumes E: "platform E" "varint_leb128 E" and w: "wf_cursor E c"
    and ok: "s \<le> length k" "length k < 2 ^ 32" "length v < 2 ^ 32"
    and rest: "rest_of c = leb128 (as_u64 s) @ leb128 (as_u64 (length k - s)) @ leb128 (as_u64 (length v))
       @ drop s k @ v @ r"
  obtains c1 c2 c3 c4 c5 where
    "read_varint_u32 E c = Ok (word_of_nat s, c1)"
    "read_varint_u32 E c1 = Ok (word_of_nat (length k - s), c2)"
    "read_varint_u32 E c2 = Ok (word_of_nat (length v), c3)"
    "cur_take E (length k - s) ''entry key delta'' c3 = Ok (drop s k, c4)"
    "cur_take E (length v) ''entry value'' c4 = Ok (v, c5)"
    "rest_of c5 = r" "wf_cursor E c5" "cbuf c5 = cbuf c" "cpos c + length k + length v \<le> cpos c5 + s"
    "remaining c5 < remaining c"
proof -
  let ?l = "\<lambda>n. length (leb128 (as_u64 n))"
  define n1 where "n1 = ?l s"
  define n2 where "n2 = n1 + ?l (length k - s)"
  define n3 where "n3 = n2 + ?l (length v)"
  define n4 where "n4 = n3 + (length k - s)"
  define n5 where "n5 = n4 + length v"
  note n = n1_def n2_def n3_def n4_def n5_def
  have wf: "wf_cursor E (advance m c)" if "m \<le> length (rest_of c)" for m
    using w that by (rule wf_advance)
  have s: "s < 2 ^ 32" "length k - s < 2 ^ 32" using ok by linarith+
  show ?thesis
  proof (rule that [of "advance n1 c" "advance n2 c" "advance n3 c" "advance n4 c" "advance n5 c"])
    show "read_varint_u32 E c = Ok (word_of_nat s, advance n1 c)"
      using read_varint_u32_prefix [OF E(2) w rest s(1)] by (simp add: n1_def)
    have "rest_of (advance n1 c) = leb128 (as_u64 (length k - s)) @ leb128 (as_u64 (length v))
        @ drop s k @ v @ r" by (simp add: rest n1_def)
    from read_varint_u32_prefix [OF E(2) wf this s(2)]
    show "read_varint_u32 E (advance n1 c) = Ok (word_of_nat (length k - s), advance n2 c)"
      by (simp add: rest n)
    have "rest_of (advance n2 c) = leb128 (as_u64 (length v)) @ drop s k @ v @ r"
      by (simp add: rest n1_def n2_def)
    from read_varint_u32_prefix [OF E(2) wf this ok(3)]
    show "read_varint_u32 E (advance n2 c) = Ok (word_of_nat (length v), advance n3 c)"
      by (simp add: rest n)
    have "rest_of (advance n3 c) = drop s k @ v @ r" by (simp add: rest n1_def n2_def n3_def)
    from cur_take_prefix [OF wf this]
    show "cur_take E (length k - s) ''entry key delta'' (advance n3 c) = Ok (drop s k, advance n4 c)"
      by (simp add: rest n)
    have "rest_of (advance n4 c) = v @ r" by (simp add: rest n1_def n2_def n3_def n4_def)
    from cur_take_prefix [OF wf this]
    show "cur_take E (length v) ''entry value'' (advance n4 c) = Ok (v, advance n5 c)"
      by (simp add: rest n)
    show "rest_of (advance n5 c) = r" by (simp add: rest n)
    show "wf_cursor E (advance n5 c)" by (rule wf) (simp add: rest n)
    show "cpos c + length k + length v \<le> cpos (advance n5 c) + s" using ok(1) by (simp add: n)
    have "0 < ?l s" by simp
    then show "remaining (advance n5 c) < remaining c"
      by (simp add: rest n flip: length_rest_of)
  qed simp
qed

lemma entries_loop_encoded:
  assumes E: "platform E" "varint_leb128 E"
  shows "wf_cursor E c \<Longrightarrow> buffer_ok E (cbuf c) \<Longrightarrow> length prev \<le> cpos c \<Longrightarrow> remaining c < fuel \<Longrightarrow>
    shares_ok prev es \<Longrightarrow> rest_of c = encode_entries prev es \<Longrightarrow>
    entries_loop E fuel c prev out = Ok (out @ map snd es)"
proof (induction es arbitrary: c prev fuel out)
  case Nil
  then have "is_empty c" by (simp add: is_empty_def flip: length_rest_of)
  with Nil show ?case by (cases fuel) (auto simp: entries_loop.simps)
next
  case (Cons e es)
  obtain s k v where e: "e = (s, k, v)" by (cases e)
  obtain f where f: "fuel = Suc f" using Cons.prems(4) by (cases fuel) auto
  have ok: "s \<le> length k" "length k < 2 ^ 32" "length v < 2 ^ 32" "s \<le> length prev"
    "take s prev = take s k" "shares_ok k es"
    using Cons.prems(5) by (simp_all add: e)
  from Cons.prems(6) have "rest_of c = leb128 (as_u64 s) @ leb128 (as_u64 (length k - s))
      @ leb128 (as_u64 (length v)) @ drop s k @ v @ encode_entries k es" by (simp add: e)
  from entry_prefix [OF E Cons.prems(1) ok(1-3) this] obtain c1 c2 c3 c4 c5 where r:
    "read_varint_u32 E c = Ok (word_of_nat s, c1)"
    "read_varint_u32 E c1 = Ok (word_of_nat (length k - s), c2)"
    "read_varint_u32 E c2 = Ok (word_of_nat (length v), c3)"
    "cur_take E (length k - s) ''entry key delta'' c3 = Ok (drop s k, c4)"
    "cur_take E (length v) ''entry value'' c4 = Ok (v, c5)"
    and c5: "rest_of c5 = encode_entries k es" "wf_cursor E c5" "cbuf c5 = cbuf c"
      "cpos c + length k + length v \<le> cpos c5 + s" "remaining c5 < remaining c" .
  have "length k \<le> cpos c5" using c5(4) ok(4) Cons.prems(3) by linarith
  moreover from this have len: "length k \<le> isize_max E"
    using c5(2,3) Cons.prems(2) by (simp add: wf_cursor_def buffer_ok_def)
  ultimately have "entries_loop E f c5 k (out @ [(k, v)]) = Ok ((out @ [(k, v)]) @ map snd es)"
    using Cons.IH [OF c5(2) _ _ _ ok(6) c5(1)] c5 Cons.prems(2,4) f by simp
  moreover have "\<not> is_empty c" using c5(5) by (simp add: is_empty_def)
  moreover have "as_usize E (unat (word_of_nat s :: u32)) = s"
    "as_usize E (unat (word_of_nat (length k - s) :: u32)) = length k - s"
    "as_usize E (unat (word_of_nat (length v) :: u32)) = length v"
    by (rule as_usize_u32 [OF E(1)]; use ok in linarith)+
  ultimately show ?case
    using r ok len
    by (simp add: f e entries_loop.simps plus_usize_def checked_add_def isize_le_usize
        with_capacity_def slice_Ok del: of_nat_diff)
qed

lemma idx_last4:
  assumes "length t = 4"
  shows "idx (xs @ t) [length xs, length xs + 1, length xs + 2, length xs + 3] = Ok t"
  using assms by (subst idx_Ok) (auto simp: numeral_eq_Suc length_Suc_conv nth_append)

lemma parse_block_split:
  assumes "platform E" "length (body @ rs @ t) \<le> usize_max E" "length t = 4"
    and "length rs = unat (u32_from_le_bytes t) * 4"
  shows "parse_block_entries E (body @ rs @ t) =
    entries_loop E (Suc (length body)) (cursor_new body) [] []"
proof -
  let ?block = "body @ rs @ t"
  have n: "length ?block - 4 = length (body @ rs)" "\<not> length ?block < 4" using assms(3) by auto
  have ix: "idx ?block [length (body @ rs), length (body @ rs) + 1, length (body @ rs) + 2,
      length (body @ rs) + 3] = Ok t"
    using idx_last4 [OF assms(3), of "body @ rs"] by simp
  have nr: "as_usize E (unat (u32_from_le_bytes t)) = unat (u32_from_le_bytes t)"
    using assms(2,4) by simp
  have mul: "checked_mul E (unat (u32_from_le_bytes t)) 4 = Some (length rs)"
    using assms(2,4) by (simp add: checked_mul_def)
  have sub: "checked_sub (length (body @ rs)) (length rs) = Some (length body)"
    by (simp add: checked_sub_def)
  have sl: "slice ?block 0 (length body) = Ok body" by (simp add: slice_Ok)
  show ?thesis
    unfolding parse_block_entries_def n(1) Let_def ix bind.simps nr mul ok_or_simps sub sl
    using n(2) by simp
qed

lemma length_concat_le4: "length (concat (map (to_le 4) xs)) = length xs * 4"
  by (induction xs) simp_all

lemma parse_block_entries_encoded:
  assumes E: "platform E" "varint_leb128 E" and len: "buffer_ok E (encode_block es restarts)"
    and ok: "shares_ok [] es" "length restarts < 2 ^ 32"
  shows "parse_block_entries E (encode_block es restarts) = Ok (map snd es)"
proof -
  let ?body = "encode_entries [] es"
  have us: "length (encode_block es restarts) \<le> usize_max E" by (rule buffer_ok_usize [OF len])
  have "parse_block_entries E (encode_block es restarts) =
      entries_loop E (Suc (length ?body)) (cursor_new ?body) [] []"
    using us unfolding encode_block_def
    by (intro parse_block_split [OF E(1)]) (use ok(2) in \<open>simp_all add: length_concat_le4 le_simps\<close>)
  also have "\<dots> = Ok ([] @ map snd es)"
    using us len ok(1)
    by (intro entries_loop_encoded [OF E]) (auto simp: encode_block_def buffer_ok_def remaining_def)
  finally show ?thesis by simp
qed

section \<open>Blocks and handles\<close>

text \<open>A block as stored: its payload, the compression type and the masked crc of both.\<close>

definition stored_block :: "core_env \<Rightarrow> u8 \<Rightarrow> bytes \<Rightarrow> bytes" where
  "stored_block E t payload =
     payload @ [t] @ to_le 4 (unat (sst_mask_crc (crc32c E (payload @ [t]))))"

lemma length_stored_block [simp]: "length (stored_block E t p) = length p + BLOCK_TRAILER_LEN"
  by (simp add: stored_block_def BLOCK_TRAILER_LEN_def)

definition handle_at :: "nat \<Rightarrow> bytes \<Rightarrow> block_handle" where
  "handle_at off payload = \<lparr>bh_offset = as_u64 off, bh_size = as_u64 (length payload)\<rparr>"

definition encode_handle :: "block_handle \<Rightarrow> bytes" where
  "encode_handle h = leb128 (bh_offset h) @ leb128 (bh_size h)"

lemma read_block_handle_prefix:
  assumes "varint_leb128 E" "wf_cursor E c" "rest_of c = encode_handle h @ r"
  shows "read_block_handle E c = Ok (h, advance (length (encode_handle h)) c)"
proof -
  have rest: "rest_of c = leb128 (bh_offset h) @ leb128 (bh_size h) @ r"
    using assms(3) by (simp add: encode_handle_def)
  let ?c = "advance (length (leb128 (bh_offset h))) c"
  have "rest_of ?c = leb128 (bh_size h) @ r" "wf_cursor E ?c"
    using assms(2) by (auto simp: rest intro: wf_advance)
  then show ?thesis
    using read_varint_u64_prefix [OF assms(1,2) rest] read_varint_u64_prefix [OF assms(1), of ?c]
    by (simp add: read_block_handle_def encode_handle_def add.commute)
qed

lemma usize_try_from_len:
  assumes "platform E" "n \<le> usize_max E"
  shows "usize_try_from E (as_u64 n) = Some n"
  using platform_bounds [OF assms(1)] assms(2) by (simp add: usize_try_from_def as_u64_def unat_of_nat)

lemma idx_trailer:
  assumes "length c = 4"
  shows "idx (p @ t # c) [length p] = Ok [t]"
    "idx (p @ t # c) [length p + 1, length p + 2, length p + 3, length p + 4] = Ok c"
proof -
  obtain a b d e where "c = [a, b, d, e]"
    using assms by (auto simp: numeral_eq_Suc length_Suc_conv)
  then show "idx (p @ t # c) [length p] = Ok [t]"
    "idx (p @ t # c) [length p + 1, length p + 2, length p + 3, length p + 4] = Ok c"
    by (simp_all add: idx.simps nth_append)
qed

lemma read_block_at:
  assumes E: "platform E" and buf: "buf = pre @ stored_block E t p @ post" "length buf \<le> usize_max E"
  shows "read_block E buf (handle_at (length pre) p) = decode_block E t p (length pre) (length p)"
proof -
  define crc where "crc = sst_mask_crc (crc32c E (p @ [t]))"
  let ?region = "p @ t # to_le 4 (unat crc)"
  have sb: "stored_block E t p = ?region" by (simp add: stored_block_def crc_def)
  have le: "length pre \<le> usize_max E" "length p \<le> usize_max E"
      "length pre + length p \<le> usize_max E" "length pre + length p + BLOCK_TRAILER_LEN \<le> usize_max E"
    using buf by (auto simp: BLOCK_TRAILER_LEN_def)
  have off: "usize_try_from E (bh_offset (handle_at (length pre) p)) = Some (length pre)"
    and sz: "usize_try_from E (bh_size (handle_at (length pre) p)) = Some (length p)"
    using usize_try_from_len [OF E] le by (simp_all add: handle_at_def)
  have range: "get_range buf (length pre) (length pre + length p + BLOCK_TRAILER_LEN) = Some ?region"
    using buf(1) sb by (simp add: get_range_def BLOCK_TRAILER_LEN_def)
  have ix: "idx ?region [length p] = Ok [t]"
    "idx ?region [length p + 1, length p + 2, length p + 3, length p + 4] = Ok (to_le 4 (unat crc))"
    by (rule idx_trailer; simp)+
  have sl: "slice ?region 0 (length p) = Ok p" "slice ?region 0 (length p + 1) = Ok (p @ [t])"
    by (simp_all add: slice_Ok)
  have ca: "checked_add E (length pre) (length p) = Some (length pre + length p)"
    "checked_add E (length pre + length p) BLOCK_TRAILER_LEN = Some (length pre + length p + BLOCK_TRAILER_LEN)"
    using le by (simp_all add: checked_add_def)
  show ?thesis
    unfolding read_block_def off sz ok_or_simps bind.simps ca option.case range ix sl Let_def le_simps
    by (simp add: crc_def)
qed

section \<open>Tables\<close>

text \<open>A block to write: its entries, its restart array and whether it is compressed.\<close>

record wblock =
  wb_entries :: "wentry list"
  wb_restarts :: "nat list"
  wb_snappy :: bool

definition raw_block :: "wblock \<Rightarrow> bytes" where
  "raw_block b = encode_block (wb_entries b) (wb_restarts b)"

definition payload :: "(bytes \<Rightarrow> bytes) \<Rightarrow> wblock \<Rightarrow> bytes" where
  "payload compress b = (if wb_snappy b then compress (raw_block b) else raw_block b)"

definition store :: "core_env \<Rightarrow> (bytes \<Rightarrow> bytes) \<Rightarrow> wblock \<Rightarrow> bytes" where
  "store E compress b =
     stored_block E (if wb_snappy b then COMPRESSION_SNAPPY else COMPRESSION_NONE) (payload compress b)"

definition wblock_ok :: "wblock \<Rightarrow> bool" where
  "wblock_ok b \<longleftrightarrow> shares_ok [] (wb_entries b) \<and> length (wb_restarts b) < 2 ^ 32 \<and>
     (wb_snappy b \<longrightarrow> length (raw_block b) \<le> MAX_DECOMPRESSED_BLOCK)"

fun block_handles :: "(bytes \<Rightarrow> bytes) \<Rightarrow> nat \<Rightarrow> wblock list \<Rightarrow> block_handle list" where
  "block_handles compress off [] = []"
| "block_handles compress off (b # bs) =
     handle_at off (payload compress b)
       # block_handles compress (off + length (payload compress b) + BLOCK_TRAILER_LEN) bs"

definition footer :: "block_handle \<Rightarrow> block_handle \<Rightarrow> bytes" where
  "footer mh ih =
     (let hs = encode_handle mh @ encode_handle ih
      in hs @ replicate (MAGIC_OFFSET - length hs) 0 @ to_le 8 (unat TABLE_MAGIC))"

text \<open>The index entries: any keys with admissible sharing, the handles as values.\<close>

definition index_entries :: "(nat \<times> bytes) list \<Rightarrow> block_handle list \<Rightarrow> wentry list" where
  "index_entries ks hs = map2 (\<lambda>(s, k) h. (s, k, encode_handle h)) ks hs"

text \<open>
  A table: the data blocks, whatever lies between (filter and metaindex blocks), the index
  block, the footer. \<open>mh\<close> is the metaindex handle, which the reader skips.
\<close>

definition write_table ::
    "core_env \<Rightarrow> (bytes \<Rightarrow> bytes) \<Rightarrow> wblock list \<Rightarrow> bytes \<Rightarrow> block_handle \<Rightarrow> wblock \<Rightarrow> bytes" where
  "write_table E compress bs meta mh index =
     (let pre = concat (map (store E compress) bs) @ meta
      in pre @ store E compress index @ footer mh (handle_at (length pre) (payload compress index)))"

lemma leb128_nat_length: "n < 128 ^ k \<Longrightarrow> 0 < k \<Longrightarrow> length (leb128_nat n) \<le> k"
proof (induction k arbitrary: n)
  case 0
  then show ?case by simp
next
  case (Suc k)
  show ?case
  proof (cases "n < 128")
    case True
    then show ?thesis by (subst leb128_nat.simps) simp
  next
    case False
    then have "0 < k" using Suc.prems by (cases k) auto
    moreover have "n div 128 < 128 ^ k" using Suc.prems(1) by (simp add: less_mult_imp_div_less mult.commute)
    ultimately show ?thesis using Suc.IH [of "n div 128"] False by (subst leb128_nat.simps) simp
  qed
qed

lemma leb128_length: "length (leb128 v) \<le> 10"
proof -
  have "unat v < 2 ^ 64" using unsigned_less [of v] by simp
  then have "unat v < 128 ^ 10" by simp
  then show ?thesis unfolding leb128_def by (rule leb128_nat_length) simp
qed

lemma encode_handle_length: "length (encode_handle h) \<le> 20"
  using leb128_length [of "bh_offset h"] leb128_length [of "bh_size h"] by (simp add: encode_handle_def)

lemma length_footer [simp]: "length (footer mh ih) = FOOTER_LEN"
  using encode_handle_length [of mh] encode_handle_length [of ih]
  by (simp add: footer_def Let_def FOOTER_LEN_def MAGIC_OFFSET_def)

lemma parse_footer_written:
  assumes E: "varint_leb128 E" and len: "length (pre @ footer mh ih) \<le> usize_max E"
  shows "parse_footer E (pre @ footer mh ih) = Ok ih"
proof -
  let ?hs = "encode_handle mh @ encode_handle ih"
  let ?pad = "replicate (MAGIC_OFFSET - length ?hs) (0::u8)"
  let ?c = "cursor_new (?hs @ ?pad)"
  have hs: "length (?hs @ ?pad) = MAGIC_OFFSET"
    using encode_handle_length [of mh] encode_handle_length [of ih] by (simp add: MAGIC_OFFSET_def)
  have f: "footer mh ih = (?hs @ ?pad) @ to_le 8 (unat TABLE_MAGIC)" by (simp add: footer_def Let_def)
  have sl: "slice (footer mh ih) MAGIC_OFFSET (MAGIC_OFFSET + 8) = Ok (to_le 8 (unat TABLE_MAGIC))"
    "slice (footer mh ih) 0 MAGIC_OFFSET = Ok (?hs @ ?pad)"
    unfolding f using hs by (simp_all add: slice_Ok del: append_assoc)
  have w: "wf_cursor E ?c" using len hs by (simp add: FOOTER_LEN_def MAGIC_OFFSET_def del: length_append)
     (simp add: FOOTER_LEN_def)
  have 1: "read_block_handle E ?c = Ok (mh, advance (length (encode_handle mh)) ?c)"
    by (rule read_block_handle_prefix [OF E w]) simp
  have 2: "read_block_handle E (advance (length (encode_handle mh)) ?c) =
      Ok (ih, advance (length (encode_handle ih)) (advance (length (encode_handle mh)) ?c))"
    by (rule read_block_handle_prefix [OF E wf_advance [OF w], where r = ?pad]) simp_all
  have "bind (read_block_handle E ?c) (\<lambda>(m, cur). bind (read_block_handle E cur)
      (\<lambda>(i, cur). Ok i)) = Ok ih"
    by (simp only: 1 2 bind.simps prod.case)
  then show ?thesis by (simp add: parse_footer_def Let_def slice_Ok sl le_simps)
qed

text \<open>Reading back a block that was stored.\<close>

lemma read_stored:
  assumes E: "platform E" "snappy_inverts E compress"
    and buf: "buf = pre @ store E compress b @ post" "length buf \<le> usize_max E" and ok: "wblock_ok b"
  shows "read_block E buf (handle_at (length pre) (payload compress b)) = Ok (raw_block b)"
  using read_block_at [OF E(1) buf(1) [unfolded store_def] buf(2)] E(2) ok
  by (auto simp: decode_block_def payload_def snappy_inverts_def wblock_ok_def
      COMPRESSION_NONE_def COMPRESSION_SNAPPY_def MAX_DECOMPRESSED_BLOCK_def)

lemma raw_block_ok:
  assumes "platform E" "wblock_ok b" "\<not> wb_snappy b \<Longrightarrow> length (raw_block b) \<le> isize_max E"
  shows "buffer_ok E (raw_block b)"
  using assms max_block_isize [OF assms(1)] by (auto simp: buffer_ok_def wblock_ok_def)

lemma parse_raw_block:
  assumes "platform E" "varint_leb128 E" "wblock_ok b" "buffer_ok E (raw_block b)"
  shows "parse_block_entries E (raw_block b) = Ok (map snd (wb_entries b))"
  using parse_block_entries_encoded [OF assms(1,2)] assms(3,4) by (auto simp: raw_block_def wblock_ok_def)

lemma length_store: "length (store E compress b) = length (payload compress b) + BLOCK_TRAILER_LEN"
  by (simp add: store_def)

lemma store_fits:
  assumes "buffer_ok E (pre @ store E compress b @ post)" "\<not> wb_snappy b"
  shows "length (raw_block b) \<le> isize_max E"
  using assms by (simp add: buffer_ok_def length_store payload_def)

lemma table_loop_written:
  assumes E: "platform E" "varint_leb128 E" "snappy_inverts E compress"
    and buf: "buffer_ok E buf" and off: "off = length pre" "length ks = length bs"
  shows "buf = pre @ concat (map (store E compress) bs) @ post \<Longrightarrow> \<forall>b \<in> set bs. wblock_ok b \<Longrightarrow>
    table_loop E buf origin (map snd (index_entries ks (block_handles compress off bs))) records =
      Ok (records @ concat (map (\<lambda>b. List.map_filter (entry_record origin) (map snd (wb_entries b))) bs))"
  using off
proof (induction bs arbitrary: pre ks off records)
  case Nil
  then show ?case by (simp add: index_entries_def)
next
  case (Cons b bs)
  obtain s k ks' where ks: "ks = (s, k) # ks'" using Cons.prems(4) by (cases ks) auto
  define h where "h = handle_at off (payload compress b)"
  have u: "length buf \<le> usize_max E" by (rule buffer_ok_usize [OF buf])
  have b: "buf = pre @ store E compress b @ (concat (map (store E compress) bs) @ post)"
    using Cons.prems(1) by simp
  have "wf_cursor E (cursor_new (encode_handle h))"
    using encode_handle_length [of h] platform_bounds [OF E(1)] by simp
  then have rh: "read_block_handle E (cursor_new (encode_handle h)) =
      Ok (h, advance (length (encode_handle h)) (cursor_new (encode_handle h)))"
    by (rule read_block_handle_prefix [OF E(2)]) simp
  have rb: "read_block E buf h = Ok (raw_block b)"
    unfolding h_def Cons.prems(3) by (rule read_stored [OF E(1,3) b u]) (use Cons.prems(2) in simp)
  have "buffer_ok E (raw_block b)"
    by (rule raw_block_ok [OF E(1)]) (use Cons.prems(2) store_fits [OF buf [unfolded b]] in auto)
  then have pb: "parse_block_entries E (raw_block b) = Ok (map snd (wb_entries b))"
    by (intro parse_raw_block [OF E(1,2)]) (use Cons.prems(2) in simp)
  have "table_loop E buf origin
      (map snd (index_entries ks' (block_handles compress (off + length (payload compress b) + BLOCK_TRAILER_LEN) bs)))
      (records @ List.map_filter (entry_record origin) (map snd (wb_entries b))) =
    Ok ((records @ List.map_filter (entry_record origin) (map snd (wb_entries b))) @
      concat (map (\<lambda>b. List.map_filter (entry_record origin) (map snd (wb_entries b))) bs))"
    using Cons.prems ks
    by (intro Cons.IH [of "pre @ store E compress b"]) (auto simp: length_store)
  then show ?case
    by (simp add: ks index_entries_def rh rb pb push_entries_eq flip: h_def)
qed

lemma block_handles_length [simp]: "length (block_handles compress off bs) = length bs"
  by (induction bs arbitrary: off) simp_all

lemma parse_table_written:
  assumes E: "platform E" "varint_leb128 E" "snappy_inverts E compress"
    and buf: "buf = write_table E compress bs meta mh index" "buffer_ok E buf"
    and blocks: "\<forall>b \<in> set bs. wblock_ok b"
    and index: "wblock_ok index" "length ks = length bs"
      "wb_entries index = index_entries ks (block_handles compress 0 bs)"
  shows "parse_table E buf origin =
    Ok (concat (map (\<lambda>b. List.map_filter (entry_record origin) (map snd (wb_entries b))) bs))"
proof -
  define pre where "pre = concat (map (store E compress) bs) @ meta"
  define ih where "ih = handle_at (length pre) (payload compress index)"
  have b: "buf = pre @ store E compress index @ footer mh ih"
    using buf(1) by (simp add: write_table_def pre_def ih_def Let_def)
  have u: "length buf \<le> usize_max E" by (rule buffer_ok_usize [OF buf(2)])
  have "parse_footer E buf = Ok ih"
    using parse_footer_written [OF E(2), of "pre @ store E compress index" mh ih] u b by simp
  moreover have "read_block E buf ih = Ok (raw_block index)"
    unfolding ih_def by (rule read_stored [OF E(1,3) b u index(1)])
  moreover have "parse_block_entries E (raw_block index) = Ok (map snd (wb_entries index))"
    by (rule parse_raw_block [OF E(1,2) index(1) raw_block_ok [OF E(1) index(1)]])
      (use store_fits [OF buf(2) [unfolded b]] in auto)
  moreover have "buf = [] @ concat (map (store E compress) bs) @ meta @ store E compress index @ footer mh ih"
    using b by (simp add: pre_def)
  from table_loop_written [OF E buf(2) _ index(2) this blocks, of 0 origin "[]"]
  have "table_loop E buf origin (map snd (wb_entries index)) [] =
      Ok (concat (map (\<lambda>b. List.map_filter (entry_record origin) (map snd (wb_entries b))) bs))"
    by (simp add: index(3))
  ultimately show ?thesis by (simp add: parse_table_def)
qed

section \<open>Internal keys\<close>

text \<open>User key, then \<open>(seq << 8) | value_type\<close> little-endian.\<close>

definition internal_key :: "bytes \<Rightarrow> nat \<Rightarrow> u8 \<Rightarrow> bytes" where
  "internal_key user_key seq value_type = user_key @ to_le 8 (seq * 256 + unat value_type)"

lemma entry_record_internal:
  assumes "seq < 2 ^ 56"
  shows "entry_record origin (internal_key k seq t, v) =
    Some \<lparr>rec_key = k, rec_value = v, rec_seq = word_of_nat seq, rec_deleted = (t = 0),
          rec_origin = origin\<rparr>"
proof -
  let ?n = "seq * 256 + unat t"
  have "unat t < 256" by (rule u8_unat_less)
  moreover have "seq < 72057594037927936" using assms by simp
  ultimately have "?n < 18446744073709551616" by linarith
  then have n: "?n < 2 ^ 64" by simp
  define w :: u64 where "w = word_of_nat ?n"
  have "u64_from_le_bytes (to_le 8 ?n) = w"
    using n by (simp add: u64_from_le_bytes_def from_le_to_le w_def del: of_nat_add of_nat_mult)
  moreover have uw: "unat w = ?n" using n by (simp add: w_def unat_of_nat del: of_nat_add of_nat_mult)
  moreover have "drop_bit 8 w = word_of_nat seq"
  proof -
    have "unat (drop_bit 8 w) = seq"
      unfolding unat_drop_bit_eq uw by (simp add: drop_bit_eq_div)
    then have "drop_bit 8 w = word_of_nat seq"
      using of_nat_unat [of "drop_bit 8 w", where ?'a = u64] by simp
    then show ?thesis .
  qed
  moreover have "(ucast (w AND 0xff) :: u8) = t"
  proof -
    have "w AND 0xff = take_bit 8 w" by (simp add: take_bit_eq_mask mask_eq_exp_minus_1)
    then have "unat (ucast (w AND 0xff) :: u8) = unat w mod 256"
      by (simp only: unsigned_ucast_eq unsigned_take_bit_eq) (simp add: take_bit_eq_mod)
    then have "unat (ucast (w AND 0xff) :: u8) = unat t" by (simp only: uw) simp
    then show ?thesis by (simp only: unsigned_word_eqI)
  qed
  ultimately show ?thesis by (simp add: entry_record_def internal_key_def Let_def TYPE_DELETION_def)
qed

end
