(* ===== verification/Reader_Lib.thy ===== *)
theory Reader_Lib
  imports Wal_Recovery Wal_Batch Table_Format "HOL-Library.Multiset"
begin

text \<open>
  The public interface of leveldb-core, lib.rs: the two per-file parsers and \<open>read_dir\<close>. The
  file system is a pair of functions, what listing a directory gives and what reading a file
  gives; \<open>std::fs\<close> is used for nothing else. Both parsers meet the contract \<open>file_parser\<close>,
  from which the totality of \<open>read_dir\<close> and the origin of its records follow.
\<close>

record fs_env =
  list_dir :: "path \<Rightarrow> io_error + (io_error + bytes) list"
  read_file :: "path \<Rightarrow> io_error + bytes"

definition parse_table_bytes :: "core_env \<Rightarrow> bytes \<Rightarrow> path \<Rightarrow> (error, record_t list) outcome" where
  "parse_table_bytes E buf origin = parse_table E buf origin"

definition parse_log_bytes :: "core_env \<Rightarrow> bytes \<Rightarrow> path \<Rightarrow> (error, record_t list) outcome" where
  "parse_log_bytes E buf origin = parse_log E buf origin"

section \<open>File names\<close>

text \<open>The last dot of a file name splits it; \<open>None\<close> where there is no dot.\<close>

fun rsplit_dot :: "bytes \<Rightarrow> (bytes \<times> bytes) option" where
  "rsplit_dot [] = None"
| "rsplit_dot (b # bs) =
     (case rsplit_dot bs of
        Some (before, after) \<Rightarrow> Some (b # before, after)
      | None \<Rightarrow> if b = 0x2E then Some ([], bs) else None)"

text \<open>
  \<open>Path::extension\<close>: the last component must be a name, and a name whose only dot is its first
  byte has none.
\<close>

definition file_name :: "path \<Rightarrow> bytes option" where
  "file_name p =
     (let cs = components p in
      if cs = [] then None else (case last cs of Normal name \<Rightarrow> Some name | _ \<Rightarrow> None))"

definition path_extension :: "path \<Rightarrow> bytes option" where
  "path_extension p =
     (case file_name p of
        None \<Rightarrow> None
      | Some name \<Rightarrow>
          (case rsplit_dot name of
             None \<Rightarrow> None
           | Some (before, after) \<Rightarrow> if before = [] then None else Some after))"

definition to_ascii_lowercase :: "rstring \<Rightarrow> rstring" where
  "to_ascii_lowercase s = map (\<lambda>c. if 65 \<le> c \<and> c \<le> 90 then c + 32 else c) s"

definition lower_extension :: "path \<Rightarrow> rstring option" where
  "lower_extension p = map_option to_ascii_lowercase (Option.bind (path_extension p) from_utf8)"

section \<open>Reading a directory\<close>

text \<open>\<open>entry.path()\<close>: the name joined to the path the listing was asked for (\<open>Path::join\<close>).\<close>

definition entry_path :: "path \<Rightarrow> bytes \<Rightarrow> path" where
  "entry_path dir name =
     (if name \<noteq> [] \<and> hd name = 0x2F then Path name
      else if path_bytes dir = [] \<or> last (path_bytes dir) = 0x2F then Path (path_bytes dir @ name)
      else Path (path_bytes dir @ 0x2F # name))"

fun collect_paths ::
    "path \<Rightarrow> (io_error + bytes) list \<Rightarrow> path list \<Rightarrow> (error, path list) outcome" where
  "collect_paths dir [] paths = Ok paths"
| "collect_paths dir (Inr name # es) paths = collect_paths dir es (paths @ [entry_path dir name])"
| "collect_paths dir (Inl e # es) paths = Err (Io dir e)"

text \<open>\<open>if let Ok(mut recs) = m \<dots> records.append(&mut recs)\<close>\<close>

definition append_ok ::
    "(error, record_t list) outcome \<Rightarrow> record_t list \<Rightarrow> (error, record_t list) outcome" where
  "append_ok m acc = or_return m acc (\<lambda>recs. Ok (acc @ recs))"

fun read_files ::
    "core_env \<Rightarrow> fs_env \<Rightarrow> path list \<Rightarrow> record_t list \<Rightarrow> (error, record_t list) outcome" where
  "read_files E fs [] acc = Ok acc"
| "read_files E fs (path # paths) acc =
     bind
       (case lower_extension path of
          None \<Rightarrow> Ok acc
        | Some ext \<Rightarrow>
            if ext = lit ''ldb'' \<or> ext = lit ''sst'' then
              (case read_file fs path of
                 Inr buf \<Rightarrow> append_ok (parse_table_bytes E buf path) acc
               | Inl _ \<Rightarrow> Ok acc)
            else if ext = lit ''log'' then
              (case read_file fs path of
                 Inr buf \<Rightarrow> append_ok (parse_log_bytes E buf path) acc
               | Inl _ \<Rightarrow> Ok acc)
            else Ok acc)
       (\<lambda>acc. read_files E fs paths acc)"

definition read_dir :: "core_env \<Rightarrow> fs_env \<Rightarrow> path \<Rightarrow> (error, record_t list) outcome" where
  "read_dir E fs dir =
     (case list_dir fs dir of
        Inl e \<Rightarrow> Err (Io dir e)
      | Inr entries \<Rightarrow>
          bind (collect_paths dir entries []) (\<lambda>paths. read_files E fs (sort paths) []))"

section \<open>The contract of a file parser\<close>

text \<open>What the reader relies on: the target, a varint that is not empty, snap's length.\<close>

definition core_ok :: "core_env \<Rightarrow> bool" where
  "core_ok E \<longleftrightarrow> platform E \<and> varint_progress E \<and> snappy_length E"

lemma core_okD: "core_ok E \<Longrightarrow> platform E" "core_ok E \<Longrightarrow> varint_progress E"
  "core_ok E \<Longrightarrow> snappy_length E"
  by (simp_all add: core_ok_def)

text \<open>The records a parse adds to the result: all of them, or none when it failed.\<close>

definition salvage :: "(error, record_t list) outcome \<Rightarrow> record_t list" where
  "salvage m = (case m of Ok rs \<Rightarrow> rs | _ \<Rightarrow> [])"

locale file_parser =
  fixes parse :: "core_env \<Rightarrow> bytes \<Rightarrow> path \<Rightarrow> (error, record_t list) outcome"
  assumes parse_total: "core_ok E \<Longrightarrow> buffer_ok E buf \<Longrightarrow> returns (parse E buf p)"
    and parse_origin: "core_ok E \<Longrightarrow> buffer_ok E buf \<Longrightarrow> parse E buf p = Ok rs \<Longrightarrow> r \<in> set rs \<Longrightarrow>
      rec_origin r = p"
begin

lemma append_salvage:
  "core_ok E \<Longrightarrow> buffer_ok E buf \<Longrightarrow> append_ok (parse E buf p) acc = Ok (acc @ salvage (parse E buf p))"
  using parse_total [of E buf p] by (cases "parse E buf p") (simp_all add: append_ok_def salvage_def)

lemma salvage_origin:
  "core_ok E \<Longrightarrow> buffer_ok E buf \<Longrightarrow> r \<in> set (salvage (parse E buf p)) \<Longrightarrow> rec_origin r = p"
  using parse_origin [of E buf p] by (cases "parse E buf p") (auto simp: salvage_def)

end

text \<open>A batch of a log is no longer than the log.\<close>

lemma scan_block_size: "sum_list (map (length \<circ> pdata) (scan_block E bs)) \<le> length bs"
proof (induction E bs rule: scan_block.induct)
  case (1 E bs)
  let ?len = "unat (u16_from_le_bytes (take 2 (drop 4 bs)))"
  let ?rest = "drop HEADER_SIZE bs"
  have hd: "length ?rest + HEADER_SIZE = length bs" if "\<not> length bs < HEADER_SIZE" using that by simp
  show ?case
  proof (cases "length bs < HEADER_SIZE \<or>
      (bs ! 6 = 0 \<and> ?len = 0 \<and> u32_from_le_bytes (take 4 bs) = 0) \<or> length ?rest < ?len")
    case True
    then show ?thesis by (subst scan_block.simps) (auto simp: Let_def)
  next
    case False
    then have "sum_list (map (length \<circ> pdata) (scan_block E (drop ?len ?rest))) \<le> length (drop ?len ?rest)"
      by (intro 1 [OF _ refl refl refl refl]) auto
    with False hd show ?thesis
      by (subst scan_block_cons [OF _ refl refl _ refl]) auto
  qed
qed

lemma phys_records_size: "sum_list (map (length \<circ> pdata) (phys_records E bs)) \<le> length bs"
proof (induction E bs rule: phys_records.induct)
  case (1 E bs)
  show ?case
  proof (cases "bs = []")
    case False
    have "length (take BLOCK_SIZE bs) + length (drop BLOCK_SIZE bs) = length bs" by simp
    with 1 [OF False] scan_block_size [of E "take BLOCK_SIZE bs"] show ?thesis
      unfolding phys_records_step [OF False] map_append sum_list_append by linarith
  qed simp
qed

fun pending :: "reasm \<Rightarrow> nat" where
  "pending Idle = 0"
| "pending (Collecting f) = length f"

lemma assemble_size:
  "sum_list (map length (assemble s ps)) + pending (reasm_end s ps)
     \<le> pending s + sum_list (map (length \<circ> pdata) ps)"
proof (induction ps arbitrary: s)
  case Nil
  show ?case by simp
next
  case (Cons p ps)
  obtain o' s' where st: "reasm_step s p = (o', s')" by (cases "reasm_step s p")
  then have "(case o' of None \<Rightarrow> 0 | Some b \<Rightarrow> length b) + pending s' \<le> pending s + length (pdata p)"
    by (auto simp: reasm_step_def split: if_splits reasm.splits)
  with Cons.IH [of s'] st show ?case by (auto split: option.splits)
qed

lemma log_batches_size: "sum_list (map length (log_batches E buf)) \<le> length buf"
  using assemble_size [of Idle "phys_records E buf"] phys_records_size [of E buf]
  by (simp add: log_batches_def)

lemma log_batch_length: "b \<in> set (log_batches E buf) \<Longrightarrow> length b \<le> length buf"
  using log_batches_size [of E buf] member_le_sum_list [of "length b" "map length (log_batches E buf)"]
  by fastforce

interpretation log_parser: file_parser parse_log_bytes
proof unfold_locales
  fix E buf p
  assume "core_ok E" "buffer_ok E buf"
  then show "returns (parse_log_bytes E buf p)"
    by (simp add: parse_log_bytes_def parse_log_eq core_okD)
next
  fix E buf p rs r
  assume E: "core_ok E" and buf: "buffer_ok E buf"
    and "parse_log_bytes E buf p = Ok rs" "r \<in> set rs"
  then obtain b where "b \<in> set (log_batches E buf)" "r \<in> set (batch_records E p b)"
    by (auto simp: parse_log_bytes_def parse_log_eq core_okD)
  then show "rec_origin r = p"
    using batch_records_origin log_batch_length buffer_ok_usize [OF buf] order_trans by blast
qed

lemma entry_record_origin: "entry_record origin e = Some r \<Longrightarrow> rec_origin r = origin"
  by (auto simp: entry_record_def Let_def split: prod.splits if_splits)

lemma table_loop_origin:
  "table_loop E buf origin es acc = Ok rs \<Longrightarrow> \<forall>r \<in> set acc. rec_origin r = origin \<Longrightarrow>
   r \<in> set rs \<Longrightarrow> rec_origin r = origin"
proof (induction es arbitrary: acc)
  case Nil
  then show ?case by simp
next
  case (Cons e es)
  obtain k h where e: "e = (k, h)" by (cases e)
  from Cons.prems(1) obtain entries where
    "table_loop E buf origin es (acc @ List.map_filter (entry_record origin) entries) = Ok rs"
    by (auto simp: e bind_eq_Ok push_entries_eq split: prod.splits)
  moreover have "\<forall>r \<in> set (acc @ List.map_filter (entry_record origin) entries). rec_origin r = origin"
    using Cons.prems(2) by (auto simp: map_filter_def dest: entry_record_origin)
  ultimately show ?case using Cons.prems(3) by (rule Cons.IH)
qed

interpretation table_parser: file_parser parse_table_bytes
proof unfold_locales
  fix E buf p
  assume "core_ok E" "buffer_ok E buf"
  then show "returns (parse_table_bytes E buf p)"
    by (simp add: parse_table_bytes_def parse_table_returns core_okD)
next
  fix E buf p rs r
  assume "parse_table_bytes E buf p = Ok rs" "r \<in> set rs"
  then show "rec_origin r = p"
    by (auto simp: parse_table_bytes_def parse_table_def bind_eq_Ok dest: table_loop_origin)
qed

section \<open>What \<open>read_dir\<close> returns\<close>

definition files_ok :: "core_env \<Rightarrow> fs_env \<Rightarrow> bool" where
  "files_ok E fs \<longleftrightarrow> (\<forall>p buf. read_file fs p = Inr buf \<longrightarrow> buffer_ok E buf)"

lemma files_okD: "files_ok E fs \<Longrightarrow> read_file fs p = Inr buf \<Longrightarrow> buffer_ok E buf"
  by (auto simp: files_ok_def)

datatype file_kind = Table_File | Log_File | Other_File

definition file_kind :: "path \<Rightarrow> file_kind" where
  "file_kind p =
     (case lower_extension p of
        None \<Rightarrow> Other_File
      | Some ext \<Rightarrow>
          if ext = lit ''ldb'' \<or> ext = lit ''sst'' then Table_File
          else if ext = lit ''log'' then Log_File else Other_File)"

text \<open>What one file contributes; nothing when it cannot be read or its parser fails.\<close>

definition file_records :: "core_env \<Rightarrow> fs_env \<Rightarrow> path \<Rightarrow> record_t list" where
  "file_records E fs p =
     (case read_file fs p of
        Inl _ \<Rightarrow> []
      | Inr buf \<Rightarrow>
          (case file_kind p of
             Table_File \<Rightarrow> salvage (parse_table_bytes E buf p)
           | Log_File \<Rightarrow> salvage (parse_log_bytes E buf p)
           | Other_File \<Rightarrow> []))"

lemma read_files_eq:
  "core_ok E \<Longrightarrow> files_ok E fs \<Longrightarrow>
   read_files E fs paths acc = Ok (acc @ concat (map (file_records E fs) paths))"
proof (induction paths arbitrary: acc)
  case Nil
  show ?case by simp
next
  case (Cons p paths)
  note ok = Cons.prems(1) files_okD [OF Cons.prems(2)]
  show ?case
    using Cons.IH [OF Cons.prems]
    by (auto simp: file_records_def file_kind_def log_parser.append_salvage [OF ok]
        table_parser.append_salvage [OF ok] split: option.splits sum.splits)
qed

lemma collect_paths_names:
  "collect_paths dir (map Inr names) acc = Ok (acc @ map (entry_path dir) names)"
  by (induction names arbitrary: acc) simp_all

lemma collect_paths_error:
  "collect_paths dir (map Inr names @ Inl e # es) acc = Err (Io dir e)"
  by (induction names arbitrary: acc) simp_all

lemma entries_cases:
  obtains names where "es = map Inr names" | names e rest where "es = map Inr names @ Inl e # rest"
proof (induction es arbitrary: thesis)
  case Nil
  from Nil(1) [of "[]"] show ?case by simp
next
  case (Cons x es)
  show ?case
  proof (cases x)
    case (Inl e)
    with Cons.prems(2) [of "[]"] show ?thesis by simp
  next
    case (Inr n)
    show ?thesis
    proof (rule Cons.IH)
      fix names assume "es = map Inr names"
      with Inr Cons.prems(1) [of "n # names"] show thesis by simp
    next
      fix names e rest assume "es = map Inr names @ Inl e # rest"
      with Inr Cons.prems(2) [of "n # names"] show thesis by simp
    qed
  qed
qed

lemma read_dir_names:
  assumes "core_ok E" "files_ok E fs" "list_dir fs dir = Inr (map Inr names)"
  shows "read_dir E fs dir =
    Ok (concat (map (file_records E fs) (sort (map (entry_path dir) names))))"
  by (simp add: read_dir_def assms collect_paths_names read_files_eq)

lemma read_dir_error:
  assumes "core_ok E" "files_ok E fs"
  shows "read_dir E fs dir = Err err \<longleftrightarrow>
    (\<exists>e. err = Io dir e \<and> (list_dir fs dir = Inl e \<or>
       (\<exists>names rest. list_dir fs dir = Inr (map Inr names @ Inl e # rest))))"
proof (cases "list_dir fs dir")
  case (Inl e)
  then show ?thesis by (auto simp: read_dir_def)
next
  case (Inr es)
  have ne: "map Inr names \<noteq> map Inr names' @ Inl e # rest" for names names' :: "bytes list" and e rest
  proof
    assume "map Inr names = map Inr names' @ Inl e # rest"
    then have "Inl e \<in> set (map Inr names)" by (metis in_set_conv_decomp)
    then show False by auto
  qed
  show ?thesis
  proof (cases es rule: entries_cases)
    case (1 names)
    with Inr have "list_dir fs dir = Inr (map Inr names)" by simp
    from read_dir_names [OF assms this] this show ?thesis by (simp add: ne)
  next
    case (2 names e rest)
    with Inr have rd: "read_dir E fs dir = Err (Io dir e)"
      by (simp add: read_dir_def collect_paths_error)
    have unique: "e' = e"
      if "list_dir fs dir = Inr (map Inr names' @ Inl e' # rest')" for names' e' rest'
      using rd that by (simp add: read_dir_def collect_paths_error)
    show ?thesis
    proof
      assume "read_dir E fs dir = Err err"
      with rd Inr 2 show "\<exists>e. err = Io dir e \<and> (list_dir fs dir = Inl e \<or>
          (\<exists>names rest. list_dir fs dir = Inr (map Inr names @ Inl e # rest)))" by force
    next
      assume "\<exists>e. err = Io dir e \<and> (list_dir fs dir = Inl e \<or>
          (\<exists>names rest. list_dir fs dir = Inr (map Inr names @ Inl e # rest)))"
      then obtain e' where "err = Io dir e'"
        "list_dir fs dir = Inl e' \<or> (\<exists>names rest. list_dir fs dir = Inr (map Inr names @ Inl e' # rest))"
        by blast
      with Inr unique have "err = Io dir e" by fastforce
      with rd show "read_dir E fs dir = Err err" by simp
    qed
  qed
qed

lemma file_records_origin:
  assumes "core_ok E" "files_ok E fs" "r \<in> set (file_records E fs p)"
  shows "rec_origin r = p \<and> file_kind p \<noteq> Other_File"
proof (cases "read_file fs p")
  case (Inl e)
  with assms(3) show ?thesis by (simp add: file_records_def)
next
  case (Inr buf)
  note ok = assms(1) files_okD [OF assms(2) Inr]
  from Inr assms(3) show ?thesis
    by (auto simp: file_records_def split: file_kind.splits
        intro: log_parser.salvage_origin [OF ok] table_parser.salvage_origin [OF ok])
qed

lemma read_dir_origin:
  assumes "core_ok E" "files_ok E fs" "list_dir fs dir = Inr (map Inr names)"
    and "read_dir E fs dir = Ok rs" "r \<in> set rs"
  shows "rec_origin r \<in> entry_path dir ` set names \<and> file_kind (rec_origin r) \<noteq> Other_File"
  using assms(4,5) by (auto simp: read_dir_names [OF assms(1-3)] dest!: file_records_origin [OF assms(1,2)])

text \<open>
  The entries of one directory are ordered by the bytes of their names: an entry's path has the
  components of the directory and its name, if that is a name a directory can hold.
\<close>

definition proper_name :: "bytes \<Rightarrow> bool" where
  "proper_name name \<longleftrightarrow> name \<noteq> [] \<and> 0x2F \<notin> set name \<and> name \<noteq> [0x2E] \<and> name \<noteq> [0x2E, 0x2E]"

lemma split_slash_nonempty [simp]: "split_slash xs \<noteq> []"
  by (induction xs rule: split_slash.induct) (auto split: list.splits)

lemma split_slash_append: "split_slash (xs @ 0x2F # ys) = split_slash xs @ split_slash ys"
  by (induction xs rule: split_slash.induct) (auto split: list.splits)

lemma proper_name_hd: "proper_name name \<Longrightarrow> name \<noteq> [] \<and> hd name \<noteq> 0x2F"
  by (cases name) (auto simp: proper_name_def)

lemma split_slash_plain: "0x2F \<notin> set xs \<Longrightarrow> split_slash xs = [xs]"
  by (induction xs rule: split_slash.induct) auto

lemma map_filter_append: "List.map_filter f (xs @ ys) = List.map_filter f xs @ List.map_filter f ys"
  by (simp add: map_filter_def)

lemma split_slash_entry:
  "proper_name name \<Longrightarrow> path_bytes dir \<noteq> [] \<Longrightarrow>
   split_slash (path_bytes (entry_path dir name)) =
     (if last (path_bytes dir) = 0x2F then butlast (split_slash (path_bytes dir)) else split_slash (path_bytes dir))
       @ [name]"
proof (cases "path_bytes dir" rule: rev_cases)
  case (snoc xs b)
  assume n: "proper_name name"
  then have "split_slash name = [name]" by (simp add: proper_name_def split_slash_plain)
  with snoc show ?thesis
    using split_slash_append [of xs name] split_slash_append [of "xs @ [b]" name] split_slash_append [of xs "[]"]
      proper_name_hd [OF n]
    by (auto simp: entry_path_def)
qed simp

lemma entry_path_components:
  assumes "proper_name name"
  shows "components (entry_path dir name) = components dir @ [Normal name]"
proof (cases "path_bytes dir = []")
  case True
  from assms have "split_slash name = [name]" by (simp add: proper_name_def split_slash_plain)
  with True assms proper_name_hd [OF assms] show ?thesis
    by (simp add: components_def entry_path_def part_component_def List.map_filter_simps proper_name_def)
next
  case False
  let ?d = "path_bytes dir"
  have "hd (path_bytes (entry_path dir name)) = hd ?d" "path_bytes (entry_path dir name) \<noteq> []"
    using proper_name_hd [OF assms] False by (auto simp: entry_path_def)
  moreover have "part_component name = Some (Normal name)"
    using assms by (simp add: proper_name_def part_component_def)
  moreover have "List.map_filter part_component (butlast (split_slash ?d)) = List.map_filter part_component (split_slash ?d) \<and>
      butlast (split_slash ?d) \<noteq> [] \<and> hd (butlast (split_slash ?d)) = hd (split_slash ?d)"
    if "last ?d = 0x2F"
  proof -
    from that False have "?d = butlast ?d @ [0x2F]" by (metis append_butlast_last_id)
    then have "split_slash ?d = split_slash (butlast ?d) @ [[]]"
      using split_slash_append [of "butlast ?d" "[]"] by simp
    then show ?thesis by (simp add: map_filter_append List.map_filter_simps part_component_def)
  qed
  ultimately show ?thesis
    using split_slash_entry [OF assms False] False
    by (simp add: components_def map_filter_append List.map_filter_simps)
qed

lemma entry_path_order:
  assumes "proper_name m" "proper_name n"
  shows "entry_path dir m \<le> entry_path dir n \<longleftrightarrow> m \<le> n"
proof -
  have "ys @ [Normal m] < ys @ [Normal n] \<longleftrightarrow> m < n" for ys
    by (induction ys) (simp_all add: less_component_def)
  then have "components (entry_path dir m) < components (entry_path dir n) \<longleftrightarrow> m < n"
    using assms by (simp add: entry_path_components)
  then show ?thesis
    using assms by (auto simp: less_eq_path_def path_key_def entry_path_components less_eq_prod_def)
qed

lemma sort_entry_paths:
  assumes "\<forall>n \<in> set names. proper_name n"
  shows "sort (map (entry_path dir) names) = map (entry_path dir) (sort names)"
proof (rule properties_for_sort)
  show "mset (map (entry_path dir) (sort names)) = mset (map (entry_path dir) names)" by simp
  have "sorted_wrt (\<lambda>m n. m \<le> n) (sort names)" by (simp add: sorted_sort)
  then have "sorted_wrt (\<lambda>m n. entry_path dir m \<le> entry_path dir n) (sort names)"
    by (rule sorted_wrt_mono_rel [rotated]) (use assms entry_path_order in auto)
  then show "sorted (map (entry_path dir) (sort names))" by (simp add: sorted_map)
qed

text \<open>The order in which the file system lists its entries does not matter.\<close>

lemma read_dir_order:
  assumes "core_ok E" "files_ok E fs" "files_ok E fs'" "read_file fs' = read_file fs"
    and "list_dir fs dir = Inr (map Inr names)" "list_dir fs' dir = Inr (map Inr names')"
    and "mset names' = mset names"
  shows "read_dir E fs' dir = read_dir E fs dir"
proof -
  have "sort (map (entry_path dir) names') = sort (map (entry_path dir) names)"
    by (rule properties_for_sort) (simp_all add: assms(7))
  moreover have "file_records E fs' = file_records E fs"
    by (rule ext) (simp add: file_records_def assms(4))
  ultimately show ?thesis by (simp add: read_dir_names [OF assms(1,2,5)] read_dir_names [OF assms(1,3,6)])
qed

text \<open>Damage to one file leaves what the others yield untouched.\<close>

lemma file_records_not_from:
  assumes "core_ok E" "files_ok E fs"
  shows "filter (\<lambda>r. rec_origin r \<noteq> p) (file_records E fs q) = (if q = p then [] else file_records E fs q)"
proof -
  have "r \<in> set (file_records E fs q) \<Longrightarrow> rec_origin r = q" for r
    using file_records_origin [OF assms] by blast
  then show ?thesis by (auto simp: filter_empty_conv intro!: filter_True)
qed

lemma read_dir_confined:
  assumes "core_ok E" "files_ok E fs" "files_ok E fs'"
    and "\<And>q. q \<noteq> p \<Longrightarrow> read_file fs' q = read_file fs q"
    and "list_dir fs dir = Inr (map Inr names)" "list_dir fs' dir = list_dir fs dir"
    and "read_dir E fs dir = Ok rs" "read_dir E fs' dir = Ok rs'"
  shows "filter (\<lambda>r. rec_origin r \<noteq> p) rs' = filter (\<lambda>r. rec_origin r \<noteq> p) rs"
proof -
  have same: "q \<noteq> p \<Longrightarrow> file_records E fs' q = file_records E fs q" for q
    by (simp add: file_records_def assms(4))
  have "rs = concat (map (file_records E fs) (sort (map (entry_path dir) names)))"
    using assms(7) read_dir_names [OF assms(1,2,5)] by simp
  moreover have "rs' = concat (map (file_records E fs') (sort (map (entry_path dir) names)))"
    using assms(8) read_dir_names [OF assms(1,3), of dir names] assms(5,6) by simp
  ultimately show ?thesis
    by (simp add: filter_concat comp_def file_records_not_from assms(1-3) same cong: if_cong)
qed

text \<open>The records of a readable log are never lost.\<close>

lemma file_records_log:
  assumes "core_ok E" "buffer_ok E buf" "read_file fs p = Inr buf" "file_kind p = Log_File"
  shows "file_records E fs p = concat (map (batch_records E p) (log_batches E buf))"
  using assms by (simp add: file_records_def salvage_def parse_log_bytes_def parse_log_eq core_okD)

end
