(* ===== verification/Core_Tests.thy ===== *)
theory Core_Tests
  imports Reader_Lib Table_Format
begin

text \<open>
  The unit tests inside leveldb-core (bytes.rs, error.rs, sstable.rs) as predicates on the
  model, and the proof that the model passes them: the definitions compute what the program's
  own tests expect of it. A test that unwraps or asserts fails where the predicate is false.
\<close>

section \<open>Byte cursor\<close>

definition read_varint_u32_overflows :: "core_env \<Rightarrow> bool" where
  "read_varint_u32_overflows E \<longleftrightarrow>
     (case read_varint_u32 E (cursor_new [0xFF, 0xFF, 0xFF, 0xFF, 0x1F]) of
        Err (BadVarint off) \<Rightarrow> off = 0
      | _ \<Rightarrow> False)"

definition read_varint_u32_accepts :: "core_env \<Rightarrow> bool" where
  "read_varint_u32_accepts E \<longleftrightarrow>
     (case read_varint_u32 E (cursor_new [0xAC, 0x02]) of Ok (v, _) \<Rightarrow> v = 300 | _ \<Rightarrow> False)"

definition read_length_prefixed_rejects :: "core_env \<Rightarrow> bool" where
  "read_length_prefixed_rejects E \<longleftrightarrow>
     (case read_length_prefixed E ''x'' (cursor_new [0xC8, 0x01, 0xAA, 0xBB]) of
        Err (LengthOutOfRange _ val av _) \<Rightarrow> val = 200 \<and> av = 2
      | _ \<Rightarrow> False)"

definition read_length_prefixed_reads :: "core_env \<Rightarrow> bool" where
  "read_length_prefixed_reads E \<longleftrightarrow>
     (case read_length_prefixed E ''x'' (cursor_new [0x03, 0x61, 0x62, 0x63, 0x7A]) of
        Ok (body, cur) \<Rightarrow> body = [0x61, 0x62, 0x63] \<and> remaining cur = 1
      | _ \<Rightarrow> False)"

lemma varint_bytes:
  assumes "varint_leb128 E"
  shows "decode_var E [0xFF, 0xFF, 0xFF, 0xFF, 0x1F] = Some (0x1FFFFFFFF, 5)"
    "decode_var E [0xAC, 0x02] = Some (300, 2)"
    "decode_var E [0xC8, 0x01, 0xAA, 0xBB] = Some (200, 2)"
    "decode_var E [0x03, 0x61, 0x62, 0x63, 0x7A] = Some (3, 1)"
proof -
  have d: "decode_var E (leb128 v @ rest) = Some (v, length (leb128 v))" for v rest
    using assms by (simp add: varint_leb128_def)
  have "leb128 0x1FFFFFFFF = [0xFF, 0xFF, 0xFF, 0xFF, 0x1F]" "leb128 300 = [0xAC, 0x02]"
    "leb128 200 = [0xC8, 0x01]" "leb128 3 = [0x03]"
    by (simp_all add: leb128_def leb128_nat.simps byte_of_def)
  with d [of "0x1FFFFFFFF" "[]"] d [of 300 "[]"] d [of 200 "[0xAA, 0xBB]"] d [of 3 "[0x61, 0x62, 0x63, 0x7A]"]
  show "decode_var E [0xFF, 0xFF, 0xFF, 0xFF, 0x1F] = Some (0x1FFFFFFFF, 5)"
    "decode_var E [0xAC, 0x02] = Some (300, 2)"
    "decode_var E [0xC8, 0x01, 0xAA, 0xBB] = Some (200, 2)"
    "decode_var E [0x03, 0x61, 0x62, 0x63, 0x7A] = Some (3, 1)"
    by simp_all
qed

lemma bytes_tests:
  assumes "platform E" "varint_leb128 E"
  shows "read_varint_u32_overflows E" "read_varint_u32_accepts E" "read_length_prefixed_rejects E"
    "read_length_prefixed_reads E"
proof -
  have E: "10 \<le> usize_max E" using assms(1) by (auto simp: platform_def)
  note defs = read_varint_u64_def cursor_new_def get_range_def varint_bytes [OF assms(2)] saturating_add_def
  show "read_varint_u32_overflows E" "read_varint_u32_accepts E"
    using E by (simp_all add: read_varint_u32_overflows_def read_varint_u32_accepts_def read_varint_u32_def defs)
  show "read_length_prefixed_rejects E"
    using E by (simp add: read_length_prefixed_rejects_def read_length_prefixed_def remaining_def as_u64_def defs)
  show "read_length_prefixed_reads E"
    using E by (simp add: read_length_prefixed_reads_def read_length_prefixed_def remaining_def as_u64_def
        as_usize_def cur_take_def checked_add_def defs)
qed

section \<open>Errors\<close>

definition display_cases :: "(error \<times> rstring list) list" where
  "display_cases =
     [(UnexpectedEof ''footer'' 7, [lit ''footer'', lit ''7'']),
      (BadVarint 3, [lit ''varint'', lit ''3'']),
      (LengthOutOfRange ''key'' 99 4 12, [lit ''key'', lit ''99'', lit ''4'', lit ''12'']),
      (BadTableMagic [0xDE, 0xAD, 0xBE, 0xEF, 0, 0, 0, 0] 40, [lit ''magic'', lit ''de'', lit ''40'']),
      (BadBlockCrc 0x11111111 0x22222222 64, [lit ''crc'', lit ''0x11111111'', lit ''0x22222222'', lit ''64'']),
      (UnknownCompression 9 5, [lit ''compression'', lit ''9'', lit ''5'']),
      (Io (Path [0x2F, 0x74, 0x6D, 0x70, 0x2F, 0x78, 0x2E, 0x6C, 0x64, 0x62]) (Io_Error (lit ''missing'')),
        [lit ''/tmp/x.ldb'', lit ''missing''])]"

definition display_shows :: bool where
  "display_shows \<longleftrightarrow>
     (\<forall>(err, needles) \<in> set display_cases. \<forall>n \<in> set needles. sublist n (error_display err))"

definition source_only_io :: bool where
  "source_only_io \<longleftrightarrow>
     error_source (Io (Path [0x70]) (Io_Error (lit ''nope''))) \<noteq> None \<and> error_source (BadVarint 0) = None"

lemma display_shows_holds: display_shows
proof -
  have path: "path_display (Path [0x2F, 0x74, 0x6D, 0x70, 0x2F, 0x78, 0x2E, 0x6C, 0x64, 0x62]) = lit ''/tmp/x.ldb''"
    unfolding path_display_def by (rule from_utf8_lossy_valid) (simp add: from_utf8_ascii lit_def)
  show ?thesis
    by (simp add: display_shows_def display_cases_def path)
      (simp add: lit_def dec.simps hex_u32_def hex_digit_def hex_fixed_numeral sublist_Cons_right)
qed

lemma source_only_io_holds: source_only_io
  by (simp add: source_only_io_def)

section \<open>Blocks\<close>

definition snappy_block :: "core_env \<Rightarrow> bytes \<Rightarrow> bytes" where
  "snappy_block E dat =
     (let region = dat @ [COMPRESSION_SNAPPY]; crc = sst_mask_crc (crc32c E region)
      in region @ to_le 4 (unat crc))"

definition is_err :: "('e, 'a) outcome \<Rightarrow> bool" where
  "is_err r \<longleftrightarrow> (case r of Err e \<Rightarrow> True | _ \<Rightarrow> False)"

definition undecodable_snappy_length :: "core_env \<Rightarrow> bool" where
  "undecodable_snappy_length E \<longleftrightarrow>
     (let dat = [0xFF, 0xFF] in
      is_err (read_block E (snappy_block E dat) \<lparr>bh_offset = 0, bh_size = as_u64 (length dat)\<rparr>))"

definition truncated_snappy_body :: "core_env \<Rightarrow> bool" where
  "truncated_snappy_body E \<longleftrightarrow>
     (let dat = [0x05] in
      is_err (read_block E (snappy_block E dat) \<lparr>bh_offset = 0, bh_size = as_u64 (length dat)\<rparr>))"

definition unknown_compression_type :: "core_env \<Rightarrow> bool" where
  "unknown_compression_type E \<longleftrightarrow>
     (let dat = [0x01, 0x02, 0x03]; region = dat @ [2]; crc = sst_mask_crc (crc32c E region);
          region = region @ to_le 4 (unat crc)
      in case read_block E region \<lparr>bh_offset = 0, bh_size = as_u64 (length dat)\<rparr> of
           Err (UnknownCompression kind _) \<Rightarrow> kind = 2
         | _ \<Rightarrow> False)"

text \<open>snap on the two inputs of the tests: an incomplete length, a body that is missing.\<close>

definition snap_rejects :: "core_env \<Rightarrow> bool" where
  "snap_rejects E \<longleftrightarrow> decompress_len E [0xFF, 0xFF] = None \<and> decompress_vec E [0x05] = None"

lemma read_block_whole:
  assumes "platform E" "length (stored_block E t p) \<le> usize_max E"
  shows "read_block E (stored_block E t p) \<lparr>bh_offset = 0, bh_size = as_u64 (length p)\<rparr> =
    decode_block E t p 0 (length p)"
  using read_block_at [OF assms(1), of "stored_block E t p" "[]" t p "[]"] assms(2)
  by (simp add: handle_at_def as_u64_def)

lemma block_tests:
  assumes "platform E" "snap_rejects E"
  shows "undecodable_snappy_length E" "truncated_snappy_body E" "unknown_compression_type E"
proof -
  have E: "20 \<le> usize_max E" using assms(1) by (auto simp: platform_def)
  have block: "snappy_block E dat = stored_block E COMPRESSION_SNAPPY dat" for dat
    by (simp add: snappy_block_def stored_block_def Let_def)
  have len: "length (stored_block E t dat) \<le> usize_max E" if "length dat \<le> 10" for t dat
    using that E by (simp add: stored_block_def)
  note read = read_block_whole [OF assms(1) len]
  show "undecodable_snappy_length E"
    using assms(2) by (simp add: undecodable_snappy_length_def block read [of "[0xFF, 0xFF]", simplified]
        snap_rejects_def is_err_def decode_block_def COMPRESSION_NONE_def COMPRESSION_SNAPPY_def)
  show "truncated_snappy_body E"
    using assms(2) by (cases "decompress_len E [0x05]")
      (simp_all add: truncated_snappy_body_def block read [of "[0x05]", simplified] Let_def
        snap_rejects_def is_err_def decode_block_def COMPRESSION_NONE_def COMPRESSION_SNAPPY_def)
  have "read_block E (stored_block E 2 [0x01, 0x02, 0x03]) \<lparr>bh_offset = 0, bh_size = as_u64 (length [0x01, 0x02, 0x03 :: u8])\<rparr> =
      Err (UnknownCompression 2 3)"
    using E by (subst read) (simp_all add: decode_block_def COMPRESSION_NONE_def COMPRESSION_SNAPPY_def
        plus_usize_def checked_add_def)
  then show "unknown_compression_type E"
    by (simp add: unknown_compression_type_def Let_def stored_block_def)
qed

end
