(* ===== verification/Storage_Value.thy ===== *)
theory Storage_Value
  imports Rust_Text
begin

text \<open>
  Decoded web-storage strings, leveldb-forensic/src/value.rs. The decoders are total; a value
  not marked lossy determines the bytes it was decoded from (\<open>utf16le\<close> and \<open>typed\<close> below
  are exact codecs), and the raw bytes are kept in every case.
\<close>

datatype encoding = Utf16Le | Latin1 | Empty | Unknown u8

record storage_value =
  sv_text :: rstring
  sv_raw :: bytes
  sv_encoding :: encoding
  sv_lossy :: bool

definition empty_value :: storage_value where
  "empty_value = \<lparr>sv_text = [], sv_raw = [], sv_encoding = Empty, sv_lossy = False\<rparr>"

text \<open>\<open>chunks_exact(2)\<close>: the code units, and the remainder.\<close>

fun u16_chunks :: "bytes \<Rightarrow> u16 list \<times> bytes" where
  "u16_chunks (a # b # bs) =
     (case u16_chunks bs of (us, rest) \<Rightarrow> (u16_from_le_bytes [a, b] # us, rest))"
| "u16_chunks bs = ([], bs)"

text \<open>The loop over the decoded units, with the accumulated text and the flag.\<close>

fun push_units :: "nat option list \<Rightarrow> rstring \<Rightarrow> bool \<Rightarrow> rstring \<times> bool" where
  "push_units [] acc lossy = (acc, lossy)"
| "push_units (Some ch # us) acc lossy = push_units us (acc @ [ch]) lossy"
| "push_units (None # us) acc lossy = push_units us (acc @ [replacement_char]) True"

definition decode_utf16le :: "bytes \<Rightarrow> bytes \<Rightarrow> storage_value" where
  "decode_utf16le body raw =
     (let (units, remainder) = u16_chunks body;
          (txt, lossy) = push_units (decode_utf16 units) [] (remainder \<noteq> [])
      in \<lparr>sv_text = txt, sv_raw = raw, sv_encoding = Utf16Le, sv_lossy = lossy\<rparr>)"

text \<open>\<open>b as char\<close>\<close>

definition latin1 :: "bytes \<Rightarrow> rstring" where
  "latin1 bs = map unat bs"

definition decode_latin1 :: "bytes \<Rightarrow> bytes \<Rightarrow> storage_value" where
  "decode_latin1 body raw =
     \<lparr>sv_text = latin1 body, sv_raw = raw, sv_encoding = Latin1, sv_lossy = False\<rparr>"

definition decode_type_prefixed :: "bytes \<Rightarrow> storage_value" where
  "decode_type_prefixed raw =
     (case raw of
        [] \<Rightarrow> empty_value
      | b # body \<Rightarrow>
          if b = 0 then decode_utf16le body raw
          else if b = 1 then decode_latin1 body raw
          else \<lparr>sv_text = from_utf8_lossy raw, sv_raw = raw, sv_encoding = Unknown b,
                 sv_lossy = True\<rparr>)"

definition decode_session_value :: "bytes \<Rightarrow> storage_value" where
  "decode_session_value raw =
     (case raw of
        [] \<Rightarrow> empty_value
      | b # body \<Rightarrow>
          if b = 0 then decode_utf16le body raw
          else if b = 1 then decode_latin1 body raw
          else decode_utf16le raw raw)"

section \<open>The loops in closed form\<close>

definition unit_text :: "nat option list \<Rightarrow> rstring" where
  "unit_text us = map (\<lambda>u. case u of Some c \<Rightarrow> c | None \<Rightarrow> replacement_char) us"

lemma push_units_eq: "push_units us acc lossy = (acc @ unit_text us, lossy \<or> None \<in> set us)"
  by (induction us acc lossy rule: push_units.induct) (auto simp: unit_text_def)

lemma unit_text_Some [simp]: "unit_text (map Some s) = s"
  by (induction s) (simp_all add: unit_text_def)

lemma unit_text_no_None: "None \<notin> set us \<Longrightarrow> us = map Some (unit_text us)"
proof (induction us)
  case (Cons u us)
  then show ?case by (cases u) (auto simp: unit_text_def)
qed (simp add: unit_text_def)

lemma decode_utf16le_eq:
  "u16_chunks body = (units, rest) \<Longrightarrow>
   decode_utf16le body raw =
     \<lparr>sv_text = unit_text (decode_utf16 units), sv_raw = raw, sv_encoding = Utf16Le,
      sv_lossy = (rest \<noteq> [] \<or> None \<in> set (decode_utf16 units))\<rparr>"
  by (simp add: decode_utf16le_def push_units_eq)

lemma decode_utf16le_fields [simp]:
  "sv_raw (decode_utf16le body raw) = raw" "sv_encoding (decode_utf16le body raw) = Utf16Le"
  by (cases "u16_chunks body"; simp add: decode_utf16le_eq)+

lemma decode_latin1_fields [simp]:
  "sv_raw (decode_latin1 body raw) = raw" "sv_encoding (decode_latin1 body raw) = Latin1"
  "sv_lossy (decode_latin1 body raw) = False" "sv_text (decode_latin1 body raw) = latin1 body"
  by (simp_all add: decode_latin1_def)

section \<open>UTF-16-LE\<close>

definition units_le :: "u16 list \<Rightarrow> bytes" where
  "units_le us = concat (map (\<lambda>u. to_le 2 (unat u)) us)"

definition utf16le_encode :: "rstring \<Rightarrow> bytes" where
  "utf16le_encode s = units_le (encode_utf16 s)"

definition utf16le_decode :: "bytes \<Rightarrow> rstring option" where
  "utf16le_decode body =
     (let v = decode_utf16le body body in if sv_lossy v then None else Some (sv_text v))"

lemma units_le_simps [simp]:
  "units_le [] = []" "units_le (u # us) = byte_of (unat u mod 256) # byte_of (unat u div 256) # units_le us"
proof -
  show "units_le [] = []" by (simp add: units_le_def)
  have "unat u div 256 < 256" using u16_unat_less [of u] by linarith
  then show "units_le (u # us) = byte_of (unat u mod 256) # byte_of (unat u div 256) # units_le us"
    by (simp add: units_le_def numeral_2_eq_2)
qed

lemma u16_pair: "u16_from_le_bytes [byte_of (unat u mod 256), byte_of (unat u div 256)] = u"
proof -
  have "unat u div 256 < 256" using u16_unat_less [of u] by linarith
  then show ?thesis by (simp add: u16_from_le_bytes_def)
qed

lemma u16_pair_bytes:
  "byte_of (unat (u16_from_le_bytes [a, b]) mod 256) = a"
  "byte_of (unat (u16_from_le_bytes [a, b]) div 256) = b"
proof -
  have "unat a + 256 * unat b < 65536"
    using u8_unat_less [of a] u8_unat_less [of b] by linarith
  then have "unat (u16_from_le_bytes [a, b]) = unat a + 256 * unat b"
    by (simp add: u16_from_le_bytes_def unat_of_nat del: of_nat_add of_nat_mult)
  then show "byte_of (unat (u16_from_le_bytes [a, b]) mod 256) = a"
    "byte_of (unat (u16_from_le_bytes [a, b]) div 256) = b"
    by simp_all
qed

lemma u16_chunks_units: "u16_chunks (units_le us) = (us, [])"
  by (induction us) (simp_all add: u16_pair)

lemma u16_chunks_inverse: "u16_chunks bs = (us, rest) \<Longrightarrow> bs = units_le us @ rest \<and> length rest < 2"
  by (induction bs arbitrary: us rest rule: u16_chunks.induct)
    (auto simp: u16_pair_bytes split: prod.splits)

interpretation utf16le: exact_codec utf16le_encode utf16le_decode scalars
proof unfold_locales
  fix s
  assume "scalars s"
  then show "utf16le_decode (utf16le_encode s) = Some s"
    by (simp add: utf16le_decode_def utf16le_encode_def decode_utf16le_eq [OF u16_chunks_units]
        decode_encode_utf16 image_iff)
next
  fix b s
  assume dec: "utf16le_decode b = Some s"
  obtain us rest where ch: "u16_chunks b = (us, rest)" by (cases "u16_chunks b")
  with dec have "rest = []" "None \<notin> set (decode_utf16 us)" "s = unit_text (decode_utf16 us)"
    by (auto simp: utf16le_decode_def decode_utf16le_eq [OF ch] Let_def split: if_splits)
  moreover from this have "decode_utf16 us = map Some s" by (metis unit_text_no_None)
  then have "scalars s \<and> encode_utf16 s = us" by (rule decode_utf16_sound)
  ultimately show "scalars s \<and> utf16le_encode s = b"
    using u16_chunks_inverse [OF ch] by (simp add: utf16le_encode_def)
qed

text \<open>The raw argument is only carried along.\<close>

lemma decode_utf16le_raw:
  "sv_text (decode_utf16le body raw) = sv_text (decode_utf16le body body)"
  "sv_lossy (decode_utf16le body raw) = sv_lossy (decode_utf16le body body)"
  by (cases "u16_chunks body"; simp add: decode_utf16le_eq)+

lemma decode_utf16le_clean:
  "\<not> sv_lossy (decode_utf16le body raw) \<longleftrightarrow>
     (\<exists>s. scalars s \<and> body = utf16le_encode s \<and> sv_text (decode_utf16le body raw) = s)"
proof -
  have "utf16le_decode body =
      (if sv_lossy (decode_utf16le body raw) then None else Some (sv_text (decode_utf16le body raw)))"
    unfolding decode_utf16le_raw [of body raw] by (simp add: utf16le_decode_def Let_def)
  with utf16le.dec_iff [of body] show ?thesis by (auto split: if_splits)
qed

lemma decode_utf16le_encode:
  "scalars s \<Longrightarrow> decode_utf16le (utf16le_encode s) raw =
     \<lparr>sv_text = s, sv_raw = raw, sv_encoding = Utf16Le, sv_lossy = False\<rparr>"
  by (simp add: utf16le_encode_def decode_utf16le_eq [OF u16_chunks_units] decode_encode_utf16 image_iff)

lemma unit_text_scalars: "scalars (unit_text (decode_utf16 us))"
  by (auto simp: unit_text_def scalars_def split: option.splits dest: decode_utf16_scalar)

lemma decode_utf16le_scalars: "scalars (sv_text (decode_utf16le body raw))"
  by (cases "u16_chunks body") (simp add: decode_utf16le_eq unit_text_scalars)

section \<open>Latin-1\<close>

definition latin1_encode :: "rstring \<Rightarrow> bytes" where
  "latin1_encode s = map byte_of s"

definition latin1_text :: "rstring \<Rightarrow> bool" where
  "latin1_text s \<longleftrightarrow> (\<forall>c \<in> set s. c < 256)"

interpretation latin1: exact_codec latin1_encode "\<lambda>bs. Some (latin1 bs)" latin1_text
  by unfold_locales (auto simp: latin1_encode_def latin1_def latin1_text_def intro: map_idI)

lemma latin1_scalars: "scalars (latin1 bs)"
proof -
  have "is_scalar (unat b)" for b :: u8
    using u8_unat_less [of b] unfolding is_scalar_def by linarith
  then show ?thesis by (simp add: scalars_def latin1_def)
qed

section \<open>Type-prefixed strings\<close>

text \<open>Writing a string under an encoding; \<open>Unknown\<close> has no writer.\<close>

fun type_encode :: "encoding \<times> rstring \<Rightarrow> bytes" where
  "type_encode (Utf16Le, s) = 0 # utf16le_encode s"
| "type_encode (Latin1, s) = 1 # latin1_encode s"
| "type_encode (Empty, s) = []"
| "type_encode (Unknown b, s) = [b]"

fun typed_text :: "encoding \<times> rstring \<Rightarrow> bool" where
  "typed_text (Utf16Le, s) = scalars s"
| "typed_text (Latin1, s) = latin1_text s"
| "typed_text (Empty, s) = (s = [])"
| "typed_text (Unknown b, s) = False"

definition clean :: "storage_value \<Rightarrow> (encoding \<times> rstring) option" where
  "clean v = (if sv_lossy v then None else Some (sv_encoding v, sv_text v))"

interpretation typed: exact_codec type_encode "\<lambda>raw. clean (decode_type_prefixed raw)" typed_text
proof unfold_locales
  fix x
  assume "typed_text x"
  then show "clean (decode_type_prefixed (type_encode x)) = Some x"
    by (cases x rule: type_encode.cases)
      (simp_all add: decode_type_prefixed_def decode_utf16le_encode clean_def empty_value_def
        latin1.dec_enc [simplified])
next
  fix raw x
  assume dec: "clean (decode_type_prefixed raw) = Some x"
  show "typed_text x \<and> type_encode x = raw"
  proof (cases raw)
    case Nil
    with dec show ?thesis by (auto simp: decode_type_prefixed_def clean_def empty_value_def)
  next
    case (Cons b body)
    consider "b = 0" | "b = 1" | "b \<noteq> 0" "b \<noteq> 1" by blast
    then show ?thesis
    proof cases
      case 1
      with dec Cons have "\<not> sv_lossy (decode_utf16le body raw)"
        "x = (Utf16Le, sv_text (decode_utf16le body raw))"
        by (auto simp: decode_type_prefixed_def clean_def split: if_splits)
      with 1 Cons show ?thesis by (auto simp: decode_utf16le_clean)
    next
      case 2
      with dec Cons latin1.dec_sound [of body] show ?thesis
        by (auto simp: decode_type_prefixed_def clean_def)
    next
      case 3
      with dec Cons show ?thesis by (simp add: decode_type_prefixed_def clean_def)
    qed
  qed
qed

lemma empty_value_fields [simp]:
  "sv_raw empty_value = []" "sv_text empty_value = []" "sv_lossy empty_value = False"
  "sv_encoding empty_value = Empty"
  by (simp_all add: empty_value_def)

lemma decode_type_prefixed_raw: "sv_raw (decode_type_prefixed raw) = raw"
  by (simp add: decode_type_prefixed_def split: list.splits)

lemma decode_session_value_raw: "sv_raw (decode_session_value raw) = raw"
  by (simp add: decode_session_value_def split: list.splits)

lemma decode_type_prefixed_scalars: "scalars (sv_text (decode_type_prefixed raw))"
  by (simp add: decode_type_prefixed_def decode_utf16le_scalars latin1_scalars
      from_utf8_lossy_scalars split: list.splits)

lemma decode_session_value_scalars: "scalars (sv_text (decode_session_value raw))"
  by (simp add: decode_session_value_def decode_utf16le_scalars latin1_scalars split: list.splits)

section \<open>Session values\<close>

text \<open>With a prefix, and without one when the first byte cannot be taken for a prefix.\<close>

lemma decode_session_value_prefixed:
  "typed_text x \<Longrightarrow> clean (decode_session_value (type_encode x)) = Some x"
  by (cases x rule: type_encode.cases)
    (simp_all add: decode_session_value_def decode_utf16le_encode clean_def
      latin1.dec_enc [simplified])

lemma decode_session_value_plain:
  assumes "scalars s" "s \<noteq> []" "hd (utf16le_encode s) \<noteq> 0" "hd (utf16le_encode s) \<noteq> 1"
  shows "decode_session_value (utf16le_encode s) =
    \<lparr>sv_text = s, sv_raw = utf16le_encode s, sv_encoding = Utf16Le, sv_lossy = False\<rparr>"
proof -
  from assms(2) have "utf16le_encode s \<noteq> []"
    by (cases s) (simp_all add: utf16le_encode_def utf16_char_def)
  then obtain b bs where e: "utf16le_encode s = b # bs" by (cases "utf16le_encode s") auto
  with assms have "b \<noteq> 0" "b \<noteq> 1" by simp_all
  then have "decode_session_value (utf16le_encode s) = decode_utf16le (utf16le_encode s) (utf16le_encode s)"
    by (simp add: decode_session_value_def e)
  with assms(1) show ?thesis by (simp add: decode_utf16le_encode)
qed

text \<open>
  The heuristic is ambiguous: an unprefixed value whose first UTF-16 unit has the low byte
  \<open>0x01\<close> is read as Latin-1, cleanly; one whose first unit has the low byte \<open>0x00\<close> loses that
  byte and is flagged, as an odd number of bytes is left.
\<close>

lemma u16_chunks_odd: "snd (u16_chunks bs) \<noteq> [] \<longleftrightarrow> odd (length bs)"
  by (induction bs rule: u16_chunks.induct) (auto split: prod.splits)

lemma even_length_utf16le: "even (length (utf16le_encode s))"
proof -
  have "length (units_le us) = 2 * length us" for us by (induction us) simp_all
  then show ?thesis by (simp add: utf16le_encode_def)
qed

lemma utf16le_encode_nonempty: "s \<noteq> [] \<Longrightarrow> utf16le_encode s \<noteq> []"
  by (cases s) (simp_all add: utf16le_encode_def utf16_char_def)

lemma utf16le_encode_Cons:
  assumes "s \<noteq> []"
  obtains b bs where "utf16le_encode s = b # bs" "odd (length bs)"
  using utf16le_encode_nonempty [OF assms] even_length_utf16le [of s] by (cases "utf16le_encode s") auto

lemma latin1_tail_differs:
  assumes "scalars (c # s)" "hd (utf16le_encode (c # s)) = 1"
  shows "latin1 (tl (utf16le_encode (c # s))) \<noteq> c # s"
proof (cases "c < 0x10000")
  case True
  then have u: "utf16_char c = [unit_of c]" "unat (unit_of c) = c"
    by (simp_all add: utf16_char_def unit_of_def unat_of_nat)
  have "byte_of (c mod 256) = 1" using assms(2) by (simp add: utf16le_encode_def u)
  then have "c mod 256 = 1" by (metis unat_byte mod_less_divisor unat_1 zero_less_numeral)
  then have "c div 256 \<noteq> c" by auto
  moreover have "c div 256 < 256" using True by simp
  ultimately show ?thesis by (simp add: utf16le_encode_def u latin1_def)
next
  case False
  have "unat b \<noteq> c" for b :: u8 using u8_unat_less [of b] False by linarith
  then show ?thesis by (cases "tl (utf16le_encode (c # s))") (simp_all add: latin1_def)
qed

lemma decode_session_value_ambiguous:
  assumes "scalars s" "s \<noteq> []" "hd (utf16le_encode s) = 1"
  shows "decode_session_value (utf16le_encode s) =
      \<lparr>sv_text = latin1 (tl (utf16le_encode s)), sv_raw = utf16le_encode s,
       sv_encoding = Latin1, sv_lossy = False\<rparr> \<and>
    latin1 (tl (utf16le_encode s)) \<noteq> s"
proof -
  obtain b bs where e: "utf16le_encode s = b # bs" using assms(2) by (rule utf16le_encode_Cons)
  obtain c t where s: "s = c # t" using assms(2) by (cases s) auto
  from latin1_tail_differs [OF assms(1,3) [unfolded s]] assms(3) show ?thesis
    by (simp add: decode_session_value_def decode_latin1_def e flip: s)
qed

text \<open>So an unprefixed value is read exactly and cleanly if its first byte is no prefix, and only then.\<close>

lemma decode_session_value_exact:
  assumes "scalars s" "s \<noteq> []"
  shows "clean (decode_session_value (utf16le_encode s)) = Some (Utf16Le, s) \<longleftrightarrow>
    hd (utf16le_encode s) \<noteq> 0 \<and> hd (utf16le_encode s) \<noteq> 1"
proof -
  obtain b bs where e: "utf16le_encode s = b # bs" "odd (length bs)" using assms(2) by (rule utf16le_encode_Cons)
  have "sv_lossy (decode_utf16le bs raw)" for raw
    using e(2) u16_chunks_odd [of bs] by (cases "u16_chunks bs") (simp add: decode_utf16le_eq)
  then have "clean (decode_session_value (utf16le_encode s)) \<noteq> Some (Utf16Le, s)" if "b = 0 \<or> b = 1"
    using that by (auto simp: decode_session_value_def e clean_def)
  moreover have "clean (decode_session_value (utf16le_encode s)) = Some (Utf16Le, s)" if "b \<noteq> 0" "b \<noteq> 1"
    using decode_session_value_plain [OF assms] that by (simp add: e(1) clean_def)
  ultimately show ?thesis by (auto simp: e(1))
qed

end
