(* ===== verification/Record_Decoder.thy ===== *)
theory Record_Decoder
  imports Reader_Lib Storage_Value
begin

text \<open>
  The contract of the two web-storage decoders of leveldb-forensic: they map raw LevelDB records
  to typed records one for one, in order, keeping the sequence number, the tombstone flag
  and the user key of each. What a decoded directory listing promises follows from it.
\<close>

locale record_decoder =
  fixes decode :: "record_t list \<Rightarrow> 'r list"
    and d_seq :: "'r \<Rightarrow> u64"
    and d_deleted :: "'r \<Rightarrow> bool"
    and d_key :: "'r \<Rightarrow> bytes"
  assumes decode_seq: "map d_seq (decode rs) = map rec_seq rs"
    and decode_deleted: "map d_deleted (decode rs) = map rec_deleted rs"
    and decode_key: "map d_key (decode rs) = map rec_key rs"
begin

definition decode_dir :: "core_env \<Rightarrow> fs_env \<Rightarrow> path \<Rightarrow> (error, 'r list) outcome" where
  "decode_dir E fs dir = bind (read_dir E fs dir) (\<lambda>rs. Ok (decode rs))"

lemma decode_length: "length (decode rs) = length rs"
  using arg_cong [OF decode_seq, of length] by simp

lemma decode_nth:
  assumes "i < length rs"
  shows "d_seq (decode rs ! i) = rec_seq (rs ! i)" "d_deleted (decode rs ! i) = rec_deleted (rs ! i)"
    "d_key (decode rs ! i) = rec_key (rs ! i)"
  using assms arg_cong [OF decode_seq, of "\<lambda>xs. xs ! i" rs] arg_cong [OF decode_deleted, of "\<lambda>xs. xs ! i" rs]
    arg_cong [OF decode_key, of "\<lambda>xs. xs ! i" rs]
  by (simp_all add: decode_length)

text \<open>No tombstone is dropped, none is invented.\<close>

lemma decode_tombstones:
  "length (filter d_deleted (decode rs)) = length (filter rec_deleted rs)"
proof -
  have "length (filter P xs) = length (filter id (map P xs))" for P :: "'x \<Rightarrow> bool" and xs
    by (induction xs) simp_all
  then show ?thesis by (metis decode_deleted)
qed

lemma decode_dir_names:
  assumes "core_ok E" "files_ok E fs" "list_dir fs dir = Inr (map Inr names)"
  obtains rs where "read_dir E fs dir = Ok rs" "decode_dir E fs dir = Ok (decode rs)"
    "map d_seq (decode rs) = map rec_seq rs"
  using that [OF read_dir_names [OF assms]]
  by (simp add: decode_dir_def read_dir_names [OF assms] decode_seq)

lemma decode_dir_error:
  "decode_dir E fs dir = Err e \<longleftrightarrow> read_dir E fs dir = Err e"
  by (cases "read_dir E fs dir") (simp_all add: decode_dir_def)

end

end
