(* ===== verification/Local_Storage.thy ===== *)
theory Local_Storage
  imports Record_Decoder
begin

text \<open>
  Local Storage records, leveldb-forensic/src/localstorage.rs, and their entry points in lib.rs.
  The protobuf decoder is the crate protobuf-forensic-core: a parameter, of whose fields the
  code reads the number and, where the value is a varint, the value.
\<close>

record pb_field =
  fld_number :: nat
  fld_varint :: "u64 option"

type_synonym pb_decoder = "bytes \<Rightarrow> pb_field list option"

definition META_PREFIX :: bytes where
  "META_PREFIX = [0x4D, 0x45, 0x54, 0x41, 0x3A]"

datatype local_record =
    Local_Meta (local_origin: rstring) (timestamp_webkit_micros: u64) (meta_size: "u64 option")
      (local_seq: u64) (local_deleted: bool)
  | Local_Data (local_origin: rstring) (local_script_key: storage_value) (local_value: storage_value)
      (local_seq: u64) (local_deleted: bool)
  | Local_Other (other_key: bytes) (local_seq: u64) (local_deleted: bool)

definition parse_meta_protobuf :: "pb_decoder \<Rightarrow> bytes \<Rightarrow> (u64 \<times> u64 option) option" where
  "parse_meta_protobuf pb buf =
     (case pb buf of
        None \<Rightarrow> None
      | Some flds \<Rightarrow>
          (case flds of
             [] \<Rightarrow> None
           | f # fs \<Rightarrow>
               if fld_number f = 1 then
                 (case fld_varint f of
                    None \<Rightarrow> None
                  | Some timestamp \<Rightarrow>
                      Some (timestamp,
                        case fs of
                          [] \<Rightarrow> None
                        | g # _ \<Rightarrow> if fld_number g = 2 then fld_varint g else None))
               else None))"

definition strip_prefix :: "bytes \<Rightarrow> bytes \<Rightarrow> bytes option" where
  "strip_prefix p bs = (if take (length p) bs = p then Some (drop (length p) bs) else None)"

text \<open>The body of the loop: the record pushed for \<open>r\<close>.\<close>

definition local_of :: "pb_decoder \<Rightarrow> record_t \<Rightarrow> local_record" where
  "local_of pb r =
     (let other = Local_Other (rec_key r) (rec_seq r) (rec_deleted r) in
      case strip_prefix META_PREFIX (rec_key r) of
        Some storage_key_raw \<Rightarrow>
          let origin = latin1 storage_key_raw in
          if rec_deleted r then Local_Meta origin 0 None (rec_seq r) True
          else (case parse_meta_protobuf pb (rec_value r) of
              Some (timestamp, sz) \<Rightarrow> Local_Meta origin timestamp sz (rec_seq r) False
            | None \<Rightarrow> other)
      | None \<Rightarrow>
          (case rec_key r of
             [] \<Rightarrow> other
           | b # body \<Rightarrow>
               if b = 0x5F then
                 (case position (\<lambda>b. b = 0) body of
                    None \<Rightarrow> other
                  | Some nul \<Rightarrow>
                      let origin = latin1 (take nul body);
                          script_key = decode_type_prefixed (drop (nul + 1) body);
                          val = if rec_deleted r then empty_value
                                else decode_type_prefixed (rec_value r)
                      in Local_Data origin script_key val (rec_seq r) (rec_deleted r))
               else other))"

definition local_decode :: "pb_decoder \<Rightarrow> record_t list \<Rightarrow> local_record list" where
  "local_decode pb recs = map (local_of pb) recs"

definition decode_local_storage_records :: "pb_decoder \<Rightarrow> record_t list \<Rightarrow> local_record list" where
  "decode_local_storage_records pb recs = local_decode pb recs"

definition decode_local_storage ::
    "core_env \<Rightarrow> fs_env \<Rightarrow> pb_decoder \<Rightarrow> path \<Rightarrow> (error, local_record list) outcome" where
  "decode_local_storage E fs pb dir =
     bind (read_dir E fs dir) (\<lambda>recs. Ok (decode_local_storage_records pb recs))"

section \<open>Keys\<close>

text \<open>The user key a decoded record came from, read off its fields.\<close>

fun local_key :: "local_record \<Rightarrow> bytes" where
  "local_key (Local_Meta origin ts sz seq del) = META_PREFIX @ latin1_encode origin"
| "local_key (Local_Data origin script_key val seq del) =
     0x5F # latin1_encode origin @ 0 # sv_raw script_key"
| "local_key (Local_Other key seq del) = key"

lemma strip_prefix_eq_Some: "strip_prefix p bs = Some r \<longleftrightarrow> bs = p @ r"
  by (auto simp: strip_prefix_def) (metis append_take_drop_id)

lemma latin1_encode_latin1 [simp]: "latin1_encode (latin1 bs) = bs"
  by (simp add: latin1_encode_def latin1_def comp_def)

lemma latin1_latin1_encode: "latin1_text s \<Longrightarrow> latin1 (latin1_encode s) = s"
  using latin1.dec_enc by simp

lemma local_of_key: "local_key (local_of pb r) = rec_key r"
proof (cases "strip_prefix META_PREFIX (rec_key r)")
  case None
  have "take n body @ 0 # drop (Suc n) body = body" if "position (\<lambda>b. b = 0) body = Some n"
    for n and body :: bytes
    using position_SomeD [OF that] id_take_nth_drop [of n body] by simp
  with None show ?thesis
    by (auto simp: local_of_def Let_def decode_type_prefixed_raw split: list.splits option.splits)
next
  case (Some k)
  then have "rec_key r = META_PREFIX @ k" by (simp add: strip_prefix_eq_Some)
  with Some show ?thesis by (auto simp: local_of_def Let_def split: option.splits)
qed

lemma local_of_fields [simp]:
  "local_seq (local_of pb r) = rec_seq r" "local_deleted (local_of pb r) = rec_deleted r"
  by (auto simp: local_of_def Let_def split: list.splits option.splits)

interpretation local_decoder: record_decoder "local_decode pb" local_seq local_deleted local_key
  for pb
  by unfold_locales (simp_all add: local_decode_def comp_def local_of_key)

lemma decode_local_storage_dir: "decode_local_storage E fs pb = local_decoder.decode_dir pb E fs"
  by (simp add: fun_eq_iff decode_local_storage_def decode_local_storage_records_def
      local_decoder.decode_dir_def)

section \<open>The three shapes\<close>

text \<open>An entry as Chrome writes it: the key \<open>_ origin NUL script_key\<close> and the value.\<close>

definition data_key :: "rstring \<Rightarrow> encoding \<times> rstring \<Rightarrow> bytes" where
  "data_key origin k = 0x5F # latin1_encode origin @ 0 # type_encode k"

lemma local_of_data_key:
  assumes "rec_key r = 0x5F # o_raw @ 0 # k_raw" "0 \<notin> set o_raw"
  shows "local_of pb r =
    Local_Data (latin1 o_raw) (decode_type_prefixed k_raw)
      (if rec_deleted r then empty_value else decode_type_prefixed (rec_value r))
      (rec_seq r) (rec_deleted r)"
proof -
  have "strip_prefix META_PREFIX (rec_key r) = None"
    by (simp add: strip_prefix_def META_PREFIX_def assms(1))
  moreover have "position (\<lambda>b. b = 0) (o_raw @ 0 # k_raw) = Some (length o_raw)"
    using assms(2) by (intro position_append) auto
  ultimately show ?thesis by (simp add: local_of_def assms(1))
qed

text \<open>Origin, script key and value of a live entry are read back exactly.\<close>

lemma local_of_entry:
  assumes "latin1_text origin" "0 \<notin> set origin" "typed_text k" "typed_text v"
    and "rec_key r = data_key origin k" "rec_value r = type_encode v" "\<not> rec_deleted r"
  obtains sk val where "local_of pb r = Local_Data origin sk val (rec_seq r) False"
    "clean sk = Some k" "clean val = Some v"
proof
  have "0 \<notin> set (latin1_encode origin)"
  proof
    assume "0 \<in> set (latin1_encode origin)"
    then obtain c where "c \<in> set origin" "byte_of c = 0" by (auto simp: latin1_encode_def)
    moreover from this(1) assms(1) have "unat (byte_of c) = c" by (simp add: latin1_text_def)
    ultimately show False using assms(2) by (metis unsigned_0)
  qed
  then show "local_of pb r = Local_Data origin (decode_type_prefixed (type_encode k))
      (decode_type_prefixed (type_encode v)) (rec_seq r) False"
    using assms by (simp add: local_of_data_key data_key_def latin1_latin1_encode)
qed (use assms typed.dec_enc in simp_all)

text \<open>A record is data exactly when its key is an underscore and holds a NUL.\<close>

lemma local_of_is_data:
  "is_Local_Data (local_of pb r) \<longleftrightarrow> (\<exists>body. rec_key r = 0x5F # body \<and> 0 \<in> set body)"
proof (cases "\<exists>body. rec_key r = 0x5F # body \<and> 0 \<in> set body")
  case True
  then obtain o_raw k_raw where "rec_key r = 0x5F # o_raw @ 0 # k_raw" "0 \<notin> set o_raw"
    by (metis split_list_first)
  with True show ?thesis by (simp add: local_of_data_key)
next
  case False
  then have "\<And>body. rec_key r = 0x5F # body \<Longrightarrow> position (\<lambda>b. b = 0) body = None"
    by (auto simp: position_None)
  with False show ?thesis
    by (auto simp: local_of_def Let_def split: list.splits option.splits)
qed

lemma local_of_meta:
  assumes "rec_key r = META_PREFIX @ latin1_encode origin" "latin1_text origin"
  shows "local_of pb r =
    (if rec_deleted r then Local_Meta origin 0 None (rec_seq r) True
     else (case parse_meta_protobuf pb (rec_value r) of
         Some (timestamp, sz) \<Rightarrow> Local_Meta origin timestamp sz (rec_seq r) False
       | None \<Rightarrow> Local_Other (rec_key r) (rec_seq r) False))"
proof -
  have "strip_prefix META_PREFIX (rec_key r) = Some (latin1_encode origin)"
    by (simp add: strip_prefix_eq_Some assms(1))
  then show ?thesis by (simp add: local_of_def Let_def latin1_latin1_encode assms(2) split: option.splits)
qed

lemma local_of_value_raw:
  "local_of pb r = Local_Data origin sk val seq del \<Longrightarrow>
   sv_raw val = (if rec_deleted r then [] else rec_value r)"
  by (auto simp: local_of_def Let_def decode_type_prefixed_raw split: list.splits option.splits if_splits)

end
