(* ===== verification/Session_Storage.thy ===== *)
theory Session_Storage
  imports Record_Decoder
begin

text \<open>
  Session Storage records, leveldb-forensic/src/sessionstorage.rs, and their entry points in
  lib.rs. The hash map of the first pass is a map; its content is what \<open>map_of\<close> makes of the
  list of live namespace links, so the first link of a map id is the one that counts.
\<close>

definition NAMESPACE_PREFIX :: bytes where
  "NAMESPACE_PREFIX = [0x6E, 0x61, 0x6D, 0x65, 0x73, 0x70, 0x61, 0x63, 0x65, 0x2D]"

definition MAP_PREFIX :: bytes where
  "MAP_PREFIX = [0x6D, 0x61, 0x70, 0x2D]"

abbreviation dash :: nat where
  "dash \<equiv> 45"

datatype session_record =
    Session_Namespace (guid: rstring) (ns_host: rstring) (map_id: rstring)
      (session_seq: u64) (session_deleted: bool)
  | Session_Map (map_id: rstring) (map_host: "rstring option") (session_script_key: rstring)
      (session_value: storage_value) (session_seq: u64) (session_deleted: bool)
  | Session_Other (session_other_key: bytes) (session_seq: u64) (session_deleted: bool)

text \<open>\<open>str::splitn\<close>\<close>

fun splitn :: "nat \<Rightarrow> nat \<Rightarrow> rstring \<Rightarrow> rstring list" where
  "splitn 0 sep s = []"
| "splitn (Suc 0) sep s = [s]"
| "splitn (Suc (Suc n)) sep s =
     (case position (\<lambda>c. c = sep) s of
        None \<Rightarrow> [s]
      | Some i \<Rightarrow> take i s # splitn (Suc n) sep (drop (i + 1) s))"

definition split3 :: "rstring \<Rightarrow> (rstring \<times> rstring) option" where
  "split3 key = (case splitn 3 dash key of _ # middle # tail # _ \<Rightarrow> Some (middle, tail) | _ \<Rightarrow> None)"

definition starts_with :: "bytes \<Rightarrow> bytes \<Rightarrow> bool" where
  "starts_with p bs \<longleftrightarrow> take (length p) bs = p"

text \<open>\<open>host_by_map.entry(k).or_insert_with(..)\<close>\<close>

definition or_insert :: "'k \<Rightarrow> 'v \<Rightarrow> ('k \<rightharpoonup> 'v) \<Rightarrow> ('k \<rightharpoonup> 'v)" where
  "or_insert k v m = (case m k of Some _ \<Rightarrow> m | None \<Rightarrow> m(k \<mapsto> v))"

text \<open>The first pass.\<close>

fun link_hosts :: "record_t list \<Rightarrow> (rstring \<rightharpoonup> rstring) \<Rightarrow> (rstring \<rightharpoonup> rstring)" where
  "link_hosts [] m = m"
| "link_hosts (r # recs) m =
     (if rec_deleted r \<or> \<not> starts_with NAMESPACE_PREFIX (rec_key r)
         \<or> length (rec_key r) = length NAMESPACE_PREFIX
      then link_hosts recs m
      else link_hosts recs
        (case from_utf8 (rec_key r) of
           None \<Rightarrow> m
         | Some key \<Rightarrow>
             (case split3 key of
                None \<Rightarrow> m
              | Some (_, host) \<Rightarrow>
                  (case from_utf8 (rec_value r) of
                     None \<Rightarrow> m
                   | Some mid \<Rightarrow> or_insert mid host m))))"

definition session_other :: "record_t \<Rightarrow> session_record" where
  "session_other r = Session_Other (rec_key r) (rec_seq r) (rec_deleted r)"

text \<open>The body of the second pass: the record pushed for \<open>r\<close>.\<close>

definition session_of :: "(rstring \<rightharpoonup> rstring) \<Rightarrow> record_t \<Rightarrow> session_record" where
  "session_of host_by_map r =
     (if starts_with NAMESPACE_PREFIX (rec_key r) \<and> length (rec_key r) \<noteq> length NAMESPACE_PREFIX then
        (case Option.bind (from_utf8 (rec_key r)) split3 of
           Some (g, host) \<Rightarrow>
             Session_Namespace g host (from_utf8_lossy (rec_value r)) (rec_seq r) (rec_deleted r)
         | None \<Rightarrow> session_other r)
      else if starts_with MAP_PREFIX (rec_key r) then
        (case Option.bind (from_utf8 (rec_key r)) split3 of
           Some (mid, script_key) \<Rightarrow>
             let host = host_by_map mid;
                 val = if rec_deleted r then empty_value else decode_session_value (rec_value r)
             in Session_Map mid host script_key val (rec_seq r) (rec_deleted r)
         | None \<Rightarrow> session_other r)
      else session_other r)"

definition session_decode :: "record_t list \<Rightarrow> session_record list" where
  "session_decode recs =
     (let host_by_map = link_hosts recs (\<lambda>_. None) in map (session_of host_by_map) recs)"

definition decode_session_storage_records :: "record_t list \<Rightarrow> session_record list" where
  "decode_session_storage_records recs = session_decode recs"

definition decode_session_storage ::
    "core_env \<Rightarrow> fs_env \<Rightarrow> path \<Rightarrow> (error, session_record list) outcome" where
  "decode_session_storage E fs dir =
     bind (read_dir E fs dir) (\<lambda>recs. Ok (decode_session_storage_records recs))"

section \<open>Splitting keys\<close>

lemma position_join:
  "position (\<lambda>c. c = sep) s = Some i \<Longrightarrow> s = take i s @ sep # drop (Suc i) s"
  using position_SomeD [of "\<lambda>c. c = sep" s i] id_take_nth_drop [of i s] by simp

lemma split3_sound:
  assumes "split3 s = Some (m, t)"
  obtains p where "s = p @ dash # m @ dash # t" "dash \<notin> set p" "dash \<notin> set m"
proof -
  from assms obtain i where i: "position (\<lambda>c. c = dash) s = Some i"
    by (auto simp: split3_def numeral_3_eq_3 split: option.splits)
  define s' where "s' = drop (Suc i) s"
  from assms i obtain j where j: "position (\<lambda>c. c = dash) s' = Some j"
    "m = take j s'" "t = drop (Suc j) s'"
    by (auto simp: split3_def numeral_3_eq_3 s'_def split: option.splits)
  have "s = take i s @ dash # s'" unfolding s'_def by (rule position_join [OF i])
  moreover have "s' = m @ dash # t" using position_join [OF j(1)] j by simp
  moreover have "dash \<notin> set (take i s)" "dash \<notin> set m"
    using position_SomeD [OF i] position_SomeD [OF j(1)] j by auto
  ultimately show ?thesis using that by metis
qed

lemma split3_complete:
  assumes "dash \<notin> set p" "dash \<notin> set m"
  shows "split3 (p @ dash # m @ dash # t) = Some (m, t)"
proof -
  have "position (\<lambda>c. c = dash) (p @ dash # m @ dash # t) = Some (length p)"
    "position (\<lambda>c. c = dash) (m @ dash # t) = Some (length m)"
    using assms by (auto intro!: position_append)
  then show ?thesis by (simp add: split3_def numeral_3_eq_3)
qed

text \<open>ASCII prefixes of UTF-8 text.\<close>

lemma from_utf8_append_ascii:
  "\<forall>b \<in> set p. unat b < 0x80 \<Longrightarrow> from_utf8 (p @ bs) = map_option ((@) (latin1 p)) (from_utf8 bs)"
proof (induction p)
  case Nil
  show ?case by (simp add: latin1_def option.map_ident)
next
  case (Cons b p)
  then show ?case
    by (simp add: from_utf8_ascii latin1_def option.map_comp comp_def)
qed

lemma starts_with_iff: "starts_with p bs \<longleftrightarrow> (\<exists>r. bs = p @ r)"
  by (auto simp: starts_with_def) (metis append_take_drop_id)

lemma first_sep_unique: "x \<notin> set xs \<Longrightarrow> x \<notin> set ys \<Longrightarrow> xs @ x # us = ys @ x # vs \<Longrightarrow> us = vs"
  by (induction xs arbitrary: ys) (auto simp: Cons_eq_append_conv)

lemma split3_key:
  assumes "starts_with p key" "p = p' @ [0x2D]" "\<forall>b \<in> set p. unat b < 0x80" "0x2D \<notin> set p'"
    and "Option.bind (from_utf8 key) split3 = Some (m, t)"
  shows "key = p @ utf8_encode m @ 0x2D # utf8_encode t"
proof -
  obtain r where r: "key = p @ r" using assms(1) by (auto simp: starts_with_iff)
  with assms(3,5) from_utf8_append_ascii [of p r]
  obtain s where s: "from_utf8 r = Some s" "split3 (latin1 p @ s) = Some (m, t)"
    by (auto simp: bind_eq_Some_conv)
  from s(2) obtain q where q: "latin1 p @ s = q @ dash # m @ dash # t" "dash \<notin> set q"
    by (rule split3_sound)
  have "dash \<notin> set (latin1 p')"
  proof
    assume "dash \<in> set (latin1 p')"
    then obtain b where "b \<in> set p'" "unat b = dash" by (auto simp: latin1_def)
    moreover from this(2) have "b = 0x2D" by (auto dest: byte_eqI simp: byte_of_def)
    ultimately show False using assms(4) by simp
  qed
  moreover have "latin1 p' @ dash # s = q @ dash # m @ dash # t"
    using q(1) by (simp add: assms(2) latin1_def)
  ultimately have "s = m @ dash # t"
    using q(2) first_sep_unique by metis
  moreover have "utf8_encode s = r" using s(1) by (simp add: from_utf8_sound)
  moreover have "utf8_char dash = [0x2D]" by (simp add: utf8_char.simps byte_of_def)
  ultimately show ?thesis using r by auto
qed

section \<open>Hosts\<close>

text \<open>The link a live namespace record makes, from its map id to its host.\<close>

definition host_link :: "record_t \<Rightarrow> (rstring \<times> rstring) option" where
  "host_link r =
     (if rec_deleted r \<or> \<not> starts_with NAMESPACE_PREFIX (rec_key r)
         \<or> length (rec_key r) = length NAMESPACE_PREFIX then None
      else
        (case (Option.bind (from_utf8 (rec_key r)) split3, from_utf8 (rec_value r)) of
           (Some (_, host), Some mid) \<Rightarrow> Some (mid, host)
         | _ \<Rightarrow> None))"

lemma link_hosts_step:
  "link_hosts (r # recs) m =
     link_hosts recs (case host_link r of None \<Rightarrow> m | Some (mid, host) \<Rightarrow> or_insert mid host m)"
  by (auto simp: host_link_def split: option.splits)

lemma or_insert_eq: "or_insert k v m = [k \<mapsto> v] ++ m"
  by (auto simp: or_insert_def map_add_def fun_eq_iff split: option.splits)

lemma link_hosts_eq: "link_hosts recs m = map_of (List.map_filter host_link recs) ++ m"
proof (induction recs arbitrary: m)
  case Nil
  show ?case by (simp add: map_filter_def)
next
  case (Cons r recs)
  show ?case
  proof (cases "host_link r")
    case None
    with Cons show ?thesis by (simp add: link_hosts_step map_filter_def del: link_hosts.simps)
  next
    case (Some l)
    obtain mid host where l: "l = (mid, host)" by (cases l)
    have "map_of xs ++ ([mid \<mapsto> host] ++ m) = (map_of xs)(mid \<mapsto> host) ++ m" for xs
      by (auto simp: map_add_def fun_eq_iff split: option.splits)
    moreover have "List.map_filter host_link (r # recs) = (mid, host) # List.map_filter host_link recs"
      using Some l by (simp add: map_filter_def)
    moreover have "link_hosts (r # recs) m = link_hosts recs ([mid \<mapsto> host] ++ m)"
      unfolding link_hosts_step Some l by (simp only: option.case prod.case or_insert_eq)
    ultimately show ?thesis unfolding Cons by (simp only: map_of.simps fst_conv snd_conv)
  qed
qed

lemma session_decode_eq:
  "session_decode recs = map (session_of (map_of (List.map_filter host_link recs))) recs"
  by (simp add: session_decode_def link_hosts_eq Let_def map_add_def)

lemma host_first:
  assumes "host_link r = Some (mid, host)"
    and "\<forall>r' \<in> set before. \<forall>h. host_link r' \<noteq> Some (mid, h)"
  shows "map_of (List.map_filter host_link (before @ r # after)) mid = Some host"
proof -
  have "map_of (List.map_filter host_link before) mid = None"
    using assms(2) by (fastforce simp: map_of_eq_None_iff map_filter_def)
  with assms(1) show ?thesis by (simp add: map_filter_def map_add_def)
qed

lemma host_none:
  "map_of (List.map_filter host_link recs) mid = None \<longleftrightarrow> (\<forall>r \<in> set recs. \<forall>h. host_link r \<noteq> Some (mid, h))"
  by (auto simp: map_of_eq_None_iff map_filter_def image_iff)

section \<open>Keys\<close>

fun session_key :: "session_record \<Rightarrow> bytes" where
  "session_key (Session_Namespace g host mid seq del) =
     NAMESPACE_PREFIX @ utf8_encode g @ 0x2D # utf8_encode host"
| "session_key (Session_Map mid host script_key val seq del) =
     MAP_PREFIX @ utf8_encode mid @ 0x2D # utf8_encode script_key"
| "session_key (Session_Other key seq del) = key"

lemma session_of_key: "session_key (session_of hosts r) = rec_key r"
proof -
  have ns: "key = NAMESPACE_PREFIX @ utf8_encode m @ 0x2D # utf8_encode t"
    if "starts_with NAMESPACE_PREFIX key" "Option.bind (from_utf8 key) split3 = Some (m, t)" for key m t
    by (rule split3_key [OF that(1) _ _ _ that(2), of "butlast NAMESPACE_PREFIX"])
      (simp_all add: NAMESPACE_PREFIX_def)
  have mp: "key = MAP_PREFIX @ utf8_encode m @ 0x2D # utf8_encode t"
    if "starts_with MAP_PREFIX key" "Option.bind (from_utf8 key) split3 = Some (m, t)" for key m t
    by (rule split3_key [OF that(1) _ _ _ that(2), of "butlast MAP_PREFIX"])
      (simp_all add: MAP_PREFIX_def)
  show ?thesis
    using ns [of "rec_key r"] mp [of "rec_key r"]
    by (auto simp: session_of_def session_other_def Let_def split: option.splits)
qed

lemma session_of_fields [simp]:
  "session_seq (session_of hosts r) = rec_seq r" "session_deleted (session_of hosts r) = rec_deleted r"
  by (auto simp: session_of_def session_other_def Let_def split: option.splits)

interpretation session_decoder: record_decoder session_decode session_seq session_deleted session_key
  by unfold_locales (simp_all add: session_decode_eq comp_def session_of_key)

lemma decode_session_storage_dir: "decode_session_storage = session_decoder.decode_dir"
  by (simp add: fun_eq_iff decode_session_storage_def decode_session_storage_records_def
      session_decoder.decode_dir_def)

section \<open>Entries as Chrome writes them\<close>

lemma from_utf8_key:
  assumes "scalars m" "scalars t" "\<forall>b \<in> set p. unat b < 0x80"
  shows "from_utf8 (p @ utf8_encode m @ 0x2D # utf8_encode t) = Some (latin1 p @ m @ dash # t)"
proof -
  have "utf8_char dash = [0x2D]" by (simp add: utf8_char.simps byte_of_def)
  then have "from_utf8 (utf8_encode m @ 0x2D # utf8_encode t) = Some (m @ dash # t)"
    using assms from_utf8_encode [of "m @ dash # t"] by simp
  with assms(3) show ?thesis by (simp add: from_utf8_append_ascii)
qed

lemma ascii_prefixes:
  "\<forall>b \<in> set NAMESPACE_PREFIX. unat b < 0x80" "\<forall>b \<in> set MAP_PREFIX. unat b < 0x80"
  by (simp_all add: NAMESPACE_PREFIX_def MAP_PREFIX_def)

lemma latin1_prefixes:
  "latin1 NAMESPACE_PREFIX = lit ''namespace'' @ [dash]" "latin1 MAP_PREFIX = lit ''map'' @ [dash]"
  by (simp_all add: latin1_def NAMESPACE_PREFIX_def MAP_PREFIX_def lit_def)

definition namespace_key :: "rstring \<Rightarrow> rstring \<Rightarrow> bytes" where
  "namespace_key g host = NAMESPACE_PREFIX @ utf8_encode g @ 0x2D # utf8_encode host"

definition map_key :: "rstring \<Rightarrow> rstring \<Rightarrow> bytes" where
  "map_key mid script_key = MAP_PREFIX @ utf8_encode mid @ 0x2D # utf8_encode script_key"

lemma split3_namespace_key:
  assumes "scalars g" "scalars host" "dash \<notin> set g"
  shows "Option.bind (from_utf8 (namespace_key g host)) split3 = Some (g, host)"
proof -
  have "split3 (lit ''namespace'' @ dash # g @ dash # host) = Some (g, host)"
    using assms(3) by (intro split3_complete) (simp_all add: lit_def)
  then show ?thesis
    using assms by (simp add: namespace_key_def from_utf8_key ascii_prefixes latin1_prefixes)
qed

lemma split3_map_key:
  assumes "scalars mid" "scalars k" "dash \<notin> set mid"
  shows "Option.bind (from_utf8 (map_key mid k)) split3 = Some (mid, k)"
proof -
  have "split3 (lit ''map'' @ dash # mid @ dash # k) = Some (mid, k)"
    using assms(3) by (intro split3_complete) (simp_all add: lit_def)
  then show ?thesis
    using assms by (simp add: map_key_def from_utf8_key ascii_prefixes latin1_prefixes)
qed

lemma host_link_namespace:
  assumes "scalars g" "scalars host" "dash \<notin> set g" "scalars mid"
    and "rec_key r = namespace_key g host" "rec_value r = utf8_encode mid" "\<not> rec_deleted r"
  shows "host_link r = Some (mid, host)"
  using assms split3_namespace_key [OF assms(1-3)]
  by (simp add: host_link_def from_utf8_encode starts_with_def namespace_key_def)

lemma session_of_map:
  assumes "scalars mid" "scalars k" "dash \<notin> set mid" "rec_key r = map_key mid k"
  shows "session_of hosts r =
    Session_Map mid (hosts mid) k (if rec_deleted r then empty_value else decode_session_value (rec_value r))
      (rec_seq r) (rec_deleted r)"
proof -
  have "\<not> starts_with NAMESPACE_PREFIX (rec_key r)" "starts_with MAP_PREFIX (rec_key r)"
    using assms(4) by (simp_all add: map_key_def starts_with_def MAP_PREFIX_def NAMESPACE_PREFIX_def)
  then show ?thesis
    using split3_map_key [OF assms(1-3)] assms(4) by (simp add: session_of_def Let_def)
qed

text \<open>
  A map entry is joined to the host of the first live namespace record naming its map id,
  wherever in the listing the two stand.
\<close>

lemma session_join:
  assumes "recs = before @ ns # after" "r \<in> set recs"
    and "scalars g" "scalars host" "dash \<notin> set g"
    and "rec_key ns = namespace_key g host" "rec_value ns = utf8_encode mid" "\<not> rec_deleted ns"
    and "\<forall>r' \<in> set before. \<forall>h. host_link r' \<noteq> Some (mid, h)"
    and "scalars mid" "scalars k" "dash \<notin> set mid" "rec_key r = map_key mid k"
  shows "Session_Map mid (Some host) k
      (if rec_deleted r then empty_value else decode_session_value (rec_value r))
      (rec_seq r) (rec_deleted r) \<in> set (session_decode recs)"
proof -
  have "host_link ns = Some (mid, host)" by (rule host_link_namespace) fact+
  then have "map_of (List.map_filter host_link recs) mid = Some host"
    unfolding assms(1) using assms(9) by (rule host_first)
  with session_of_map [OF assms(10-13)]
  have "session_of (map_of (List.map_filter host_link recs)) r = Session_Map mid (Some host) k
      (if rec_deleted r then empty_value else decode_session_value (rec_value r))
      (rec_seq r) (rec_deleted r)"
    by simp
  with assms(2) show ?thesis unfolding session_decode_eq by (metis image_eqI set_map)
qed

text \<open>No host is made up: an attributed host comes from a live namespace record.\<close>

lemma session_host_sound:
  assumes "Session_Map mid (Some host) k val seq del \<in> set (session_decode recs)"
  shows "\<exists>r \<in> set recs. host_link r = Some (mid, host)"
proof -
  from assms obtain r where "r \<in> set recs"
    "session_of (map_of (List.map_filter host_link recs)) r = Session_Map mid (Some host) k val seq del"
    unfolding session_decode_eq by auto
  then have "map_of (List.map_filter host_link recs) mid = Some host"
    by (auto simp: session_of_def session_other_def Let_def split: if_splits option.splits prod.splits)
  then have "(mid, host) \<in> set (List.map_filter host_link recs)" by (rule map_of_SomeD)
  then show ?thesis by (auto simp: map_filter_def)
qed

lemma session_of_value_raw:
  "session_of hosts r = Session_Map mid host k val seq del \<Longrightarrow>
   sv_raw val = (if rec_deleted r then [] else rec_value r)"
  by (auto simp: session_of_def session_other_def Let_def decode_session_value_raw
      split: option.splits if_splits)

end
