(* ===== verification/Render.thy ===== *)
theory Render
  imports Local_Storage Session_Storage
begin

text \<open>
  The three output formats of the command line tool, leveldb4n6/src/render.rs. A line is built
  by one definition per match arm of the source; the loops write the lines to \<open>out\<close>, any
  implementation of \<open>std::io::Write\<close>, given here by what writing a line does to its state.
  CSV cells are quoted by the crate jsonguard, the parameter \<open>csv_field\<close>.
\<close>

datatype output_format = Text | Jsonl | Csv

text \<open>A writer: the outcome of writing some text, and its state after it.\<close>

type_synonym 'w writer = "'w \<Rightarrow> rstring \<Rightarrow> io_error option \<times> 'w"

type_synonym csv_quoter = "rstring \<Rightarrow> rstring"

section \<open>Text fragments\<close>

definition hex :: "bytes \<Rightarrow> rstring" where
  "hex bs = concat (map (\<lambda>b. hex_fixed 2 (unat b)) bs)"

definition json_char :: "nat \<Rightarrow> rstring" where
  "json_char c =
     (if c = 34 then [92, 34]
      else if c = 92 then [92, 92]
      else if c = 10 then [92, 110]
      else if c = 13 then [92, 114]
      else if c = 9 then [92, 116]
      else if c < 0x20 then [92, 117] @ hex_fixed 4 c
      else [c])"

definition json_string :: "rstring \<Rightarrow> rstring" where
  "json_string s = [34] @ concat (map json_char s) @ [34]"

definition oneline :: "rstring \<Rightarrow> rstring" where
  "oneline s = map (\<lambda>c. if c = 10 \<or> c = 13 \<or> c = 9 then 32 else c) s"

fun encoding_str :: "encoding \<Rightarrow> rstring" where
  "encoding_str Utf16Le = lit ''utf-16-le''"
| "encoding_str Latin1 = lit ''latin-1''"
| "encoding_str Empty = lit ''empty''"
| "encoding_str (Unknown b) = lit ''unknown(0x'' @ hex_fixed 2 (unat b) @ lit '')''"

definition show_u64 :: "u64 \<Rightarrow> rstring" where
  "show_u64 n = dec (unat n)"

fun opt_text :: "rstring \<Rightarrow> rstring option \<Rightarrow> rstring" where
  "opt_text d None = d"
| "opt_text d (Some s) = s"

text \<open>
  The shapes of the format strings: a JSON object with the given members, a row of cells.
\<close>

fun join_comma :: "rstring list \<Rightarrow> rstring" where
  "join_comma [] = []"
| "join_comma [x] = x"
| "join_comma (x # xs) = x @ 44 # join_comma xs"

definition json_member :: "string \<times> rstring \<Rightarrow> rstring" where
  "json_member m = [34] @ lit (fst m) @ [34, 58] @ snd m"

definition json_object :: "(string \<times> rstring) list \<Rightarrow> rstring" where
  "json_object ms = [123] @ join_comma (map json_member ms) @ [125]"

section \<open>Writing\<close>

definition writeln :: "'w writer \<Rightarrow> rstring \<Rightarrow> 'w \<Rightarrow> io_error option \<times> 'w" where
  "writeln put line w = put w (line @ [10])"

text \<open>\<open>for r in records { writeln!(out, \<dots>)?; }\<close>\<close>

fun write_each ::
    "'w writer \<Rightarrow> ('r \<Rightarrow> rstring) \<Rightarrow> 'r list \<Rightarrow> 'w \<Rightarrow> io_error option \<times> 'w" where
  "write_each put line [] w = (None, w)"
| "write_each put line (r # rs) w =
     (case writeln put (line r) w of
        (Some e, w') \<Rightarrow> (Some e, w')
      | (None, w') \<Rightarrow> write_each put line rs w')"

definition write_csv ::
    "'w writer \<Rightarrow> rstring \<Rightarrow> ('r \<Rightarrow> rstring) \<Rightarrow> 'r list \<Rightarrow> 'w \<Rightarrow> io_error option \<times> 'w" where
  "write_csv put header line rs w =
     (case writeln put header w of
        (Some e, w') \<Rightarrow> (Some e, w')
      | (None, w') \<Rightarrow> write_each put line rs w')"

section \<open>Raw records\<close>

definition raw_text :: "record_t \<Rightarrow> rstring" where
  "raw_text r =
     lit ''seq='' @ show_u64 (rec_seq r) @ lit '' deleted='' @ show_bool (rec_deleted r)
       @ lit '' file='' @ path_display (rec_origin r) @ lit '' key='' @ hex (rec_key r)
       @ lit '' value='' @ hex (rec_value r)"

definition raw_jsonl :: "record_t \<Rightarrow> rstring" where
  "raw_jsonl r = json_object
     [(''origin_file'', json_string (path_display (rec_origin r))),
      (''seq'', show_u64 (rec_seq r)),
      (''deleted'', show_bool (rec_deleted r)),
      (''key_hex'', json_string (hex (rec_key r))),
      (''value_hex'', json_string (hex (rec_value r)))]"

definition raw_csv_header :: rstring where
  "raw_csv_header = lit ''origin_file,seq,deleted,key_hex,value_hex''"

definition raw_csv :: "csv_quoter \<Rightarrow> record_t \<Rightarrow> rstring" where
  "raw_csv csv_field r = join_comma
     [csv_field (path_display (rec_origin r)), show_u64 (rec_seq r), show_bool (rec_deleted r),
      hex (rec_key r), hex (rec_value r)]"

definition render_raw ::
    "csv_quoter \<Rightarrow> 'w writer \<Rightarrow> record_t list \<Rightarrow> output_format \<Rightarrow> 'w \<Rightarrow> io_error option \<times> 'w" where
  "render_raw csv_field put recs fmt w =
     (case fmt of
        Text \<Rightarrow> write_each put raw_text recs w
      | Jsonl \<Rightarrow> write_each put raw_jsonl recs w
      | Csv \<Rightarrow> write_csv put raw_csv_header (raw_csv csv_field) recs w)"

section \<open>Local Storage records\<close>

fun local_text :: "local_record \<Rightarrow> rstring" where
  "local_text (Local_Meta origin ts sz seq del) =
     lit ''meta origin='' @ origin @ lit '' ts_webkit_micros='' @ show_u64 ts
       @ lit '' size='' @ opt_text (lit ''-'') (map_option show_u64 sz)
       @ lit '' seq='' @ show_u64 seq @ lit '' deleted='' @ show_bool del"
| "local_text (Local_Data origin script_key val seq del) =
     lit ''data origin='' @ origin @ lit '' key='' @ oneline (sv_text script_key)
       @ lit '' value='' @ oneline (sv_text val) @ lit '' enc='' @ encoding_str (sv_encoding val)
       @ lit '' lossy='' @ show_bool (sv_lossy val)
       @ lit '' seq='' @ show_u64 seq @ lit '' deleted='' @ show_bool del"
| "local_text (Local_Other key seq del) =
     lit ''other key='' @ hex key @ lit '' seq='' @ show_u64 seq @ lit '' deleted='' @ show_bool del"

fun local_jsonl :: "local_record \<Rightarrow> rstring" where
  "local_jsonl (Local_Meta origin ts sz seq del) = json_object
     [(''kind'', json_string (lit ''meta'')),
      (''origin'', json_string origin),
      (''timestamp_webkit_micros'', show_u64 ts),
      (''size'', opt_text (lit ''null'') (map_option show_u64 sz)),
      (''seq'', show_u64 seq),
      (''deleted'', show_bool del)]"
| "local_jsonl (Local_Data origin script_key val seq del) = json_object
     [(''kind'', json_string (lit ''data'')),
      (''origin'', json_string origin),
      (''key'', json_string (sv_text script_key)),
      (''value'', json_string (sv_text val)),
      (''value_encoding'', json_string (encoding_str (sv_encoding val))),
      (''lossy'', show_bool (sv_lossy val)),
      (''value_raw_hex'', json_string (hex (sv_raw val))),
      (''seq'', show_u64 seq),
      (''deleted'', show_bool del)]"
| "local_jsonl (Local_Other key seq del) = json_object
     [(''kind'', json_string (lit ''other'')),
      (''key_hex'', json_string (hex key)),
      (''seq'', show_u64 seq),
      (''deleted'', show_bool del)]"

definition local_csv_header :: rstring where
  "local_csv_header =
     lit ''kind,origin,key,value,value_encoding,lossy,timestamp_webkit_micros,size,seq,deleted''"

fun local_csv :: "csv_quoter \<Rightarrow> local_record \<Rightarrow> rstring" where
  "local_csv csv_field (Local_Meta origin ts sz seq del) = join_comma
     [lit ''meta'', csv_field origin, [], [], [], [], show_u64 ts,
      opt_text [] (map_option show_u64 sz), show_u64 seq, show_bool del]"
| "local_csv csv_field (Local_Data origin script_key val seq del) = join_comma
     [lit ''data'', csv_field origin, csv_field (sv_text script_key), csv_field (sv_text val),
      encoding_str (sv_encoding val), show_bool (sv_lossy val), [], [], show_u64 seq, show_bool del]"
| "local_csv csv_field (Local_Other key seq del) = join_comma
     [lit ''other'', [], hex key, [], [], [], [], [], show_u64 seq, show_bool del]"

definition render_local ::
    "csv_quoter \<Rightarrow> 'w writer \<Rightarrow> local_record list \<Rightarrow> output_format \<Rightarrow> 'w \<Rightarrow> io_error option \<times> 'w" where
  "render_local csv_field put recs fmt w =
     (case fmt of
        Text \<Rightarrow> write_each put local_text recs w
      | Jsonl \<Rightarrow> write_each put local_jsonl recs w
      | Csv \<Rightarrow> write_csv put local_csv_header (local_csv csv_field) recs w)"

section \<open>Session Storage records\<close>

fun session_text :: "session_record \<Rightarrow> rstring" where
  "session_text (Session_Namespace g host mid seq del) =
     lit ''namespace guid='' @ g @ lit '' host='' @ host @ lit '' map_id='' @ mid
       @ lit '' seq='' @ show_u64 seq @ lit '' deleted='' @ show_bool del"
| "session_text (Session_Map mid host script_key val seq del) =
     lit ''map map_id='' @ mid @ lit '' host='' @ opt_text (lit ''-'') host
       @ lit '' key='' @ oneline script_key @ lit '' value='' @ oneline (sv_text val)
       @ lit '' enc='' @ encoding_str (sv_encoding val) @ lit '' lossy='' @ show_bool (sv_lossy val)
       @ lit '' seq='' @ show_u64 seq @ lit '' deleted='' @ show_bool del"
| "session_text (Session_Other key seq del) =
     lit ''other key='' @ hex key @ lit '' seq='' @ show_u64 seq @ lit '' deleted='' @ show_bool del"

fun session_jsonl :: "session_record \<Rightarrow> rstring" where
  "session_jsonl (Session_Namespace g host mid seq del) = json_object
     [(''kind'', json_string (lit ''namespace'')),
      (''guid'', json_string g),
      (''host'', json_string host),
      (''map_id'', json_string mid),
      (''seq'', show_u64 seq),
      (''deleted'', show_bool del)]"
| "session_jsonl (Session_Map mid host script_key val seq del) = json_object
     [(''kind'', json_string (lit ''map'')),
      (''map_id'', json_string mid),
      (''host'', opt_text (lit ''null'') (map_option json_string host)),
      (''key'', json_string script_key),
      (''value'', json_string (sv_text val)),
      (''value_encoding'', json_string (encoding_str (sv_encoding val))),
      (''lossy'', show_bool (sv_lossy val)),
      (''seq'', show_u64 seq),
      (''deleted'', show_bool del)]"
| "session_jsonl (Session_Other key seq del) = json_object
     [(''kind'', json_string (lit ''other'')),
      (''key_hex'', json_string (hex key)),
      (''seq'', show_u64 seq),
      (''deleted'', show_bool del)]"

definition session_csv_header :: rstring where
  "session_csv_header = lit ''kind,guid,host,map_id,key,value,value_encoding,lossy,seq,deleted''"

fun session_csv :: "csv_quoter \<Rightarrow> session_record \<Rightarrow> rstring" where
  "session_csv csv_field (Session_Namespace g host mid seq del) = join_comma
     [lit ''namespace'', csv_field g, csv_field host, csv_field mid, [], [], [], [],
      show_u64 seq, show_bool del]"
| "session_csv csv_field (Session_Map mid host script_key val seq del) = join_comma
     [lit ''map'', [], csv_field (opt_text [] host), csv_field mid, csv_field script_key,
      csv_field (sv_text val), encoding_str (sv_encoding val), show_bool (sv_lossy val),
      show_u64 seq, show_bool del]"
| "session_csv csv_field (Session_Other key seq del) = join_comma
     [lit ''other'', [], [], [], hex key, [], [], [], show_u64 seq, show_bool del]"

definition render_session ::
    "csv_quoter \<Rightarrow> 'w writer \<Rightarrow> session_record list \<Rightarrow> output_format \<Rightarrow> 'w \<Rightarrow> io_error option \<times> 'w"
where
  "render_session csv_field put recs fmt w =
     (case fmt of
        Text \<Rightarrow> write_each put session_text recs w
      | Jsonl \<Rightarrow> write_each put session_jsonl recs w
      | Csv \<Rightarrow> write_csv put session_csv_header (session_csv csv_field) recs w)"

end
