(* ===== verification/Json_Lines.thy ===== *)
theory Json_Lines
  imports Render
begin

text \<open>
  What the JSONL and hex output promises: a reader of flat JSON objects, written here from the
  JSON grammar, reads each line back as the members that were written, and a line holds no
  line break. From the members of a raw record its key, value, sequence number and
  tombstone flag are recovered exactly.
\<close>

section \<open>Hex\<close>

fun unhex :: "rstring \<Rightarrow> bytes" where
  "unhex (a # b # s) = byte_of (unhex_fixed [a, b]) # unhex s"
| "unhex s = []"

lemma hex_simps [simp]: "hex [] = []" "hex (b # bs) = hex_fixed 2 (unat b) @ hex bs"
  by (simp_all add: hex_def)

lemma hex_fixed_2: "hex_fixed 2 n = [hex_digit (n div 16 mod 16), hex_digit (n mod 16)]"
  by (simp add: numeral_2_eq_2)

lemma unhex_hex: "unhex (hex bs) = bs"
proof (induction bs)
  case (Cons b bs)
  have "unhex_fixed (hex_fixed 2 (unat b)) = unat b"
    using u8_unat_less [of b] by (simp add: unhex_hex_fixed)
  with Cons show ?case by (simp add: hex_fixed_2)
qed simp

interpretation hex: codec hex "\<lambda>s. Some (unhex s)" "\<lambda>_. True"
  by unfold_locales (simp add: unhex_hex)

lemma hex_is_hex: "c \<in> set (hex bs) \<Longrightarrow> is_hex c"
  using hex_fixed_hex by (fastforce simp: hex_def)

lemma length_hex: "length (hex bs) = 2 * length bs"
  by (induction bs) simp_all

section \<open>A reader of flat JSON objects\<close>

datatype json_value = JString rstring | JNumber nat | JBool bool | JNull

text \<open>The rest of a string after its opening quote.\<close>

fun read_chars :: "rstring \<Rightarrow> (rstring \<times> rstring) option" where
  "read_chars [] = None"
| "read_chars (c # s) =
     (if c = 34 then Some ([], s)
      else if c = 92 then
        (case s of
           [] \<Rightarrow> None
         | e # s1 \<Rightarrow>
             if e = 117 then
               (case s1 of
                  w # x # y # z # s2 \<Rightarrow>
                    map_option (apfst ((#) (unhex_fixed [w, x, y, z]))) (read_chars s2)
                | _ \<Rightarrow> None)
             else if e = 110 then map_option (apfst ((#) 10)) (read_chars s1)
             else if e = 114 then map_option (apfst ((#) 13)) (read_chars s1)
             else if e = 116 then map_option (apfst ((#) 9)) (read_chars s1)
             else if e = 34 \<or> e = 92 then map_option (apfst ((#) e)) (read_chars s1)
             else None)
      else if c < 32 then None
      else map_option (apfst ((#) c)) (read_chars s))"

declare read_chars.simps [simp del]

definition strip_text :: "rstring \<Rightarrow> rstring \<Rightarrow> rstring option" where
  "strip_text p s = (if take (length p) s = p then Some (drop (length p) s) else None)"

definition read_json :: "rstring \<Rightarrow> (json_value \<times> rstring) option" where
  "read_json s =
     (case s of
        [] \<Rightarrow> None
      | c # t \<Rightarrow>
          if c = 34 then map_option (apfst JString) (read_chars t)
          else if is_digit c then
            Some (JNumber (undec (takeWhile is_digit s)), dropWhile is_digit s)
          else if c = 116 then map_option (Pair (JBool True)) (strip_text (lit ''true'') s)
          else if c = 102 then map_option (Pair (JBool False)) (strip_text (lit ''false'') s)
          else map_option (Pair JNull) (strip_text (lit ''null'') s))"

definition expect :: "nat \<Rightarrow> rstring \<Rightarrow> rstring option" where
  "expect c s = (case s of [] \<Rightarrow> None | x # t \<Rightarrow> if x = c then Some t else None)"

lemma expect_Cons [simp]: "expect c (x # s) = (if x = c then Some s else None)"
  by (simp add: expect_def)

definition read_member :: "rstring \<Rightarrow> ((rstring \<times> json_value) \<times> rstring) option" where
  "read_member s =
     Option.bind (expect 34 s) (\<lambda>s. Option.bind (read_chars s) (\<lambda>(k, s).
       Option.bind (expect 58 s) (\<lambda>s. Option.bind (read_json s) (\<lambda>(v, s). Some ((k, v), s)))))"

text \<open>The members up to the closing brace, at most \<open>n\<close> of them.\<close>

fun read_members :: "nat \<Rightarrow> rstring \<Rightarrow> (rstring \<times> json_value) list option" where
  "read_members 0 s = None"
| "read_members (Suc n) s =
     (case read_member s of
        None \<Rightarrow> None
      | Some (m, t) \<Rightarrow>
          (case expect 44 t of
             Some u \<Rightarrow> map_option ((#) m) (read_members n u)
           | None \<Rightarrow> if t = [125] then Some [m] else None))"

definition read_object :: "rstring \<Rightarrow> (rstring \<times> json_value) list option" where
  "read_object s = Option.bind (expect 123 s) (\<lambda>t. read_members (length t) t)"

section \<open>Strings\<close>

lemma read_chars_escape:
  "read_chars (92 # 34 # s) = map_option (apfst ((#) 34)) (read_chars s)"
  "read_chars (92 # 92 # s) = map_option (apfst ((#) 92)) (read_chars s)"
  "read_chars (92 # 110 # s) = map_option (apfst ((#) 10)) (read_chars s)"
  "read_chars (92 # 114 # s) = map_option (apfst ((#) 13)) (read_chars s)"
  "read_chars (92 # 116 # s) = map_option (apfst ((#) 9)) (read_chars s)"
  by (simp_all add: read_chars.simps(2) [of 92])

lemma read_chars_unicode:
  "read_chars (92 # 117 # w # x # y # z # s) =
     map_option (apfst ((#) (unhex_fixed [w, x, y, z]))) (read_chars s)"
  by (simp add: read_chars.simps(2) [of 92])

lemma read_chars_plain:
  "c \<noteq> 34 \<Longrightarrow> c \<noteq> 92 \<Longrightarrow> 32 \<le> c \<Longrightarrow> read_chars (c # s) = map_option (apfst ((#) c)) (read_chars s)"
  by (simp add: read_chars.simps(2) [of c])

lemma hex_fixed_4: "\<exists>w x y z. hex_fixed 4 n = [w, x, y, z]"
proof -
  have "length (hex_fixed 4 n) = Suc (Suc (Suc (Suc 0)))" by simp
  then show ?thesis unfolding length_Suc_conv by auto
qed

lemma read_chars_char: "read_chars (json_char c @ s) = map_option (apfst ((#) c)) (read_chars s)"
proof -
  consider "c \<in> {34, 92, 10, 13, 9}" | "c \<notin> {34, 92, 10, 13, 9}" "c < 32"
    | "c \<notin> {34, 92, 10, 13, 9}" "32 \<le> c" by fastforce
  then show ?thesis
  proof cases
    case 1
    then show ?thesis by (elim insertE emptyE) (simp_all add: json_char_def read_chars_escape)
  next
    case 2
    obtain w x y z where h: "hex_fixed 4 c = [w, x, y, z]" using hex_fixed_4 by blast
    then have "unhex_fixed [w, x, y, z] = c"
      using unhex_hex_fixed [of 4 c] 2(2) by simp
    with 2 h show ?thesis by (simp add: json_char_def read_chars_unicode)
  next
    case 3
    then show ?thesis by (simp add: json_char_def read_chars_plain)
  qed
qed

lemma read_chars_string:
  "read_chars (concat (map json_char s) @ 34 # rest) = Some (s, rest)"
proof (induction s)
  case Nil
  show ?case by (simp add: read_chars.simps)
next
  case (Cons c s)
  then show ?case by (simp add: read_chars_char)
qed

lemma read_json_string: "read_json (json_string s @ rest) = Some (JString s, rest)"
  by (simp add: read_json_def json_string_def read_chars_string)

definition json_unquote :: "rstring \<Rightarrow> rstring option" where
  "json_unquote s = (case read_json s of Some (JString t, []) \<Rightarrow> Some t | _ \<Rightarrow> None)"

interpretation json_text: codec json_string json_unquote "\<lambda>_. True"
  by unfold_locales (use read_json_string [of _ "[]"] in \<open>simp add: json_unquote_def\<close>)

text \<open>Every char of an escaped string is printable: no control character, no line break.\<close>

lemma json_char_printable: "x \<in> set (json_char c) \<Longrightarrow> 32 \<le> x"
  using hex_fixed_hex [of 4 c]
  by (fastforce simp: json_char_def is_hex_def is_digit_def split: if_splits)

lemma json_string_printable: "x \<in> set (json_string s) \<Longrightarrow> 32 \<le> x"
  by (auto simp: json_string_def dest: json_char_printable)

section \<open>Members and objects\<close>

text \<open>The text of a member's value, and the value it stands for.\<close>

fun json_text :: "json_value \<Rightarrow> rstring" where
  "json_text (JString s) = json_string s"
| "json_text (JNumber n) = dec n"
| "json_text (JBool b) = show_bool b"
| "json_text JNull = lit ''null''"

lemma takeWhile_digits:
  "\<forall>c \<in> set d. is_digit c \<Longrightarrow> rest = [] \<or> \<not> is_digit (hd rest) \<Longrightarrow>
   takeWhile is_digit (d @ rest) = d \<and> dropWhile is_digit (d @ rest) = rest"
  by (cases rest) (auto simp: takeWhile_append dropWhile_append)

lemma read_json_text:
  assumes "rest \<noteq> []" "hd rest \<in> {44, 125}"
  shows "read_json (json_text v @ rest) = Some (v, rest)"
proof (cases v)
  case (JString s)
  then show ?thesis by (simp add: read_json_string)
next
  case (JNumber n)
  obtain c d where d: "dec n = c # d" using dec_nonempty by (cases "dec n") auto
  have dig: "\<forall>c \<in> set (dec n). is_digit c" by (rule dec_digits)
  have "rest = [] \<or> \<not> is_digit (hd rest)" using assms by (auto simp: is_digit_def)
  note tw = takeWhile_digits [OF dig this]
  have "c \<noteq> 34" "is_digit c" using dig d by (auto simp: is_digit_def)
  then have "read_json (dec n @ rest) =
      Some (JNumber (undec (takeWhile is_digit (dec n @ rest))), dropWhile is_digit (dec n @ rest))"
    by (simp add: read_json_def d)
  then show ?thesis by (simp add: JNumber tw undec_dec)
next
  case (JBool b)
  then show ?thesis
    by (cases b) (simp_all add: read_json_def show_bool_def lit_def is_digit_def strip_text_def)
next
  case JNull
  then show ?thesis by (simp add: read_json_def lit_def is_digit_def strip_text_def)
qed

text \<open>Member names of the source need no escape.\<close>

definition plain_name :: "string \<Rightarrow> bool" where
  "plain_name k \<longleftrightarrow> (\<forall>c \<in> set (lit k). 32 \<le> c \<and> c \<noteq> 34 \<and> c \<noteq> 92)"

lemma plain_name_string: "plain_name k \<Longrightarrow> concat (map json_char (lit k)) = lit k"
proof -
  have "\<forall>c \<in> set s. 32 \<le> c \<and> c \<noteq> 34 \<and> c \<noteq> 92 \<Longrightarrow> concat (map json_char s) = s" for s
    by (induction s) (auto simp: json_char_def)
  then show "plain_name k \<Longrightarrow> concat (map json_char (lit k)) = lit k" by (simp add: plain_name_def)
qed

lemma read_member_text:
  assumes "plain_name k" "rest \<noteq> []" "hd rest \<in> {44, 125}"
  shows "read_member (json_member (k, json_text v) @ rest) = Some ((lit k, v), rest)"
  using read_chars_string [of "lit k" "58 # json_text v @ rest"] assms
  by (simp add: read_member_def json_member_def plain_name_string read_json_text)

definition members :: "(string \<times> json_value) list \<Rightarrow> (string \<times> rstring) list" where
  "members ms = map (apsnd json_text) ms"

lemma read_members_text:
  assumes "ms \<noteq> []" "\<forall>(k, v) \<in> set ms. plain_name k" "length ms \<le> n"
  shows "read_members n (join_comma (map json_member (members ms)) @ [125]) = Some (map (apfst lit) ms)"
  using assms
proof (induction ms arbitrary: n)
  case Nil
  then show ?case by simp
next
  case (Cons m ms)
  obtain k v where m: "m = (k, v)" by (cases m)
  obtain n' where n: "n = Suc n'" using Cons.prems(3) by (cases n) auto
  have k: "plain_name k" using Cons.prems(2) m by simp
  show ?case
  proof (cases ms)
    case Nil
    with k show ?thesis by (simp add: m n members_def read_member_text)
  next
    case (Cons m' ms')
    then have "map json_member (members ms) \<noteq> []" by (simp add: members_def)
    then have "join_comma (map json_member (members (m # ms))) =
        json_member (k, json_text v) @ 44 # join_comma (map json_member (members ms))"
      by (cases "map json_member (members ms)") (simp_all add: members_def m)
    with k Cons.IH [of n'] Cons.prems Cons show ?thesis
      by (simp add: m n read_member_text)
  qed
qed

lemma json_member_nonempty: "json_member m \<noteq> []"
  by (simp add: json_member_def)

lemma length_join_comma: "\<forall>x \<in> set xs. x \<noteq> [] \<Longrightarrow> length xs \<le> length (join_comma xs)"
  by (induction xs rule: join_comma.induct) (auto simp: Suc_le_eq)

text \<open>An object reads back as its members.\<close>

theorem read_object_members:
  assumes "ms \<noteq> []" "\<forall>(k, v) \<in> set ms. plain_name k"
  shows "read_object (json_object (members ms)) = Some (map (apfst lit) ms)"
proof -
  have "length ms \<le> length (join_comma (map json_member (members ms)))"
    using length_join_comma [of "map json_member (members ms)"]
    by (simp add: members_def json_member_nonempty)
  with assms show ?thesis
    by (simp add: read_object_def json_object_def read_members_text del: read_members.simps)
qed

end
