(* ===== verification/Render_Lines.thy ===== *)
theory Render_Lines
  imports Json_Lines "HOL-Library.Sublist"
begin

text \<open>
  The rendered records: a JSONL line is one line and reads back as the members of its record
  (locale \<open>jsonl_renderer\<close>), a CSV row has one cell for each column of the header and no
  cell a spreadsheet takes for a formula (locale \<open>csv_renderer\<close>). Each is interpreted on
  the raw, Local Storage and Session Storage renderers. The loops write these lines in order to
  any writer that keeps the contract of \<open>Write::write_all\<close>.
\<close>

section \<open>JSONL members\<close>

definition raw_members :: "record_t \<Rightarrow> (string \<times> json_value) list" where
  "raw_members r =
     [(''origin_file'', JString (path_display (rec_origin r))),
      (''seq'', JNumber (unat (rec_seq r))),
      (''deleted'', JBool (rec_deleted r)),
      (''key_hex'', JString (hex (rec_key r))),
      (''value_hex'', JString (hex (rec_value r)))]"

fun opt_number :: "u64 option \<Rightarrow> json_value" where
  "opt_number None = JNull"
| "opt_number (Some n) = JNumber (unat n)"

fun opt_string :: "rstring option \<Rightarrow> json_value" where
  "opt_string None = JNull"
| "opt_string (Some s) = JString s"

fun local_members :: "local_record \<Rightarrow> (string \<times> json_value) list" where
  "local_members (Local_Meta origin ts sz seq del) =
     [(''kind'', JString (lit ''meta'')), (''origin'', JString origin),
      (''timestamp_webkit_micros'', JNumber (unat ts)), (''size'', opt_number sz),
      (''seq'', JNumber (unat seq)), (''deleted'', JBool del)]"
| "local_members (Local_Data origin script_key val seq del) =
     [(''kind'', JString (lit ''data'')), (''origin'', JString origin),
      (''key'', JString (sv_text script_key)), (''value'', JString (sv_text val)),
      (''value_encoding'', JString (encoding_str (sv_encoding val))),
      (''lossy'', JBool (sv_lossy val)), (''value_raw_hex'', JString (hex (sv_raw val))),
      (''seq'', JNumber (unat seq)), (''deleted'', JBool del)]"
| "local_members (Local_Other key seq del) =
     [(''kind'', JString (lit ''other'')), (''key_hex'', JString (hex key)),
      (''seq'', JNumber (unat seq)), (''deleted'', JBool del)]"

fun session_members :: "session_record \<Rightarrow> (string \<times> json_value) list" where
  "session_members (Session_Namespace g host mid seq del) =
     [(''kind'', JString (lit ''namespace'')), (''guid'', JString g), (''host'', JString host),
      (''map_id'', JString mid), (''seq'', JNumber (unat seq)), (''deleted'', JBool del)]"
| "session_members (Session_Map mid host script_key val seq del) =
     [(''kind'', JString (lit ''map'')), (''map_id'', JString mid), (''host'', opt_string host),
      (''key'', JString script_key), (''value'', JString (sv_text val)),
      (''value_encoding'', JString (encoding_str (sv_encoding val))),
      (''lossy'', JBool (sv_lossy val)), (''seq'', JNumber (unat seq)), (''deleted'', JBool del)]"
| "session_members (Session_Other key seq del) =
     [(''kind'', JString (lit ''other'')), (''key_hex'', JString (hex key)),
      (''seq'', JNumber (unat seq)), (''deleted'', JBool del)]"

section \<open>Lines\<close>

function text_lines :: "rstring \<Rightarrow> rstring list" where
  "text_lines s =
     (if s = [] then []
      else takeWhile (\<lambda>c. c \<noteq> 10) s # text_lines (drop 1 (dropWhile (\<lambda>c. c \<noteq> 10) s)))"
  by pat_completeness auto
termination
proof (relation "measure length")
  fix s :: rstring
  assume "s \<noteq> []"
  then have "length (dropWhile (\<lambda>c. c \<noteq> 10) s) \<le> length s" "0 < length s"
    by (simp_all add: length_dropWhile_le)
  then have "length (drop 1 (dropWhile (\<lambda>c. c \<noteq> 10) s)) < length s" unfolding length_drop by linarith
  then show "(drop 1 (dropWhile (\<lambda>c. c \<noteq> 10) s), s) \<in> measure length" by simp
qed simp

declare text_lines.simps [simp del]

lemma text_lines_Nil [simp]: "text_lines [] = []"
  by (simp add: text_lines.simps)

lemma text_lines_line: "10 \<notin> set l \<Longrightarrow> text_lines (l @ 10 # s) = l # text_lines s"
  by (subst text_lines.simps) (auto simp: takeWhile_append dropWhile_append)

text \<open>What a loop writes: every line with its line break.\<close>

definition output_of :: "('r \<Rightarrow> rstring) \<Rightarrow> 'r list \<Rightarrow> rstring" where
  "output_of line rs = concat (map (\<lambda>r. line r @ [10]) rs)"

lemma output_of_simps [simp]:
  "output_of line [] = []" "output_of line (r # rs) = line r @ 10 # output_of line rs"
  by (simp_all add: output_of_def)

lemma opt_json_text:
  "json_text (opt_number n) = opt_text (lit ''null'') (map_option show_u64 n)"
  "json_text (opt_string s) = opt_text (lit ''null'') (map_option json_string s)"
  by (cases n; cases s; simp add: show_u64_def)+

locale jsonl_renderer =
  fixes line :: "'r \<Rightarrow> rstring"
    and fields :: "'r \<Rightarrow> (string \<times> json_value) list"
  assumes line_object: "line r = json_object (members (fields r))"
    and fields_nonempty: "fields r \<noteq> []"
    and fields_plain: "\<forall>(k, v) \<in> set (fields r). plain_name k"
begin

lemma read_line: "read_object (line r) = Some (map (apfst lit) (fields r))"
  unfolding line_object by (rule read_object_members [OF fields_nonempty fields_plain])

lemma line_printable: "c \<in> set (line r) \<Longrightarrow> 32 \<le> c"
proof -
  have jv: "\<forall>c \<in> set (json_text v). 32 \<le> c" for v
    using dec_digits
    by (cases v) (auto simp: is_digit_def show_bool_def lit_def dest: json_string_printable
        dest!: bspec [OF dec_digits])
  have jm: "\<forall>c \<in> set (json_member m). 32 \<le> c" if "m \<in> set (members (fields r))" for m
    using that fields_plain [of r] jv by (fastforce simp: members_def json_member_def plain_name_def)
  have jc: "(\<forall>x \<in> set xs. \<forall>c \<in> set x. 32 \<le> c) \<Longrightarrow> \<forall>c \<in> set (join_comma xs). 32 \<le> c" for xs :: "rstring list"
    by (induction xs rule: join_comma.induct) auto
  have "\<forall>c \<in> set (join_comma (map json_member (members (fields r)))). 32 \<le> c"
    by (rule jc) (use jm in auto)
  then show "c \<in> set (line r) \<Longrightarrow> 32 \<le> c" by (auto simp: line_object json_object_def)
qed

lemma output_lines: "text_lines (output_of line rs) = map line rs"
proof (induction rs)
  case (Cons r rs)
  have "10 \<notin> set (line r)" using line_printable [of 10 r] by auto
  with Cons show ?case by (simp add: text_lines_line)
qed simp

lemma output_read:
  "map read_object (text_lines (output_of line rs)) = map (\<lambda>r. Some (map (apfst lit) (fields r))) rs"
  by (simp add: output_lines read_line)

end

lemmas line_defs = members_def json_member_def show_u64_def plain_name_def lit_def

interpretation raw_lines: jsonl_renderer raw_jsonl raw_members
  by unfold_locales (simp_all add: raw_jsonl_def raw_members_def line_defs)

interpretation local_lines: jsonl_renderer local_jsonl local_members
proof
  fix r
  show "local_jsonl r = json_object (members (local_members r))"
    by (cases r) (simp_all add: members_def opt_json_text, simp_all add: show_u64_def)
qed (rename_tac r, case_tac r; simp add: plain_name_def lit_def)+

interpretation session_lines: jsonl_renderer session_jsonl session_members
proof
  fix r
  show "session_jsonl r = json_object (members (session_members r))"
    by (cases r) (simp_all add: members_def opt_json_text, simp_all add: show_u64_def)
qed (rename_tac r, case_tac r; simp add: plain_name_def lit_def)+

text \<open>A raw record from its line.\<close>

definition raw_of_line :: "rstring \<Rightarrow> (bytes \<times> bytes \<times> u64 \<times> bool) option" where
  "raw_of_line s =
     (case read_object s of
        None \<Rightarrow> None
      | Some ms \<Rightarrow>
          (case (map_of ms (lit ''key_hex''), map_of ms (lit ''value_hex''), map_of ms (lit ''seq''),
              map_of ms (lit ''deleted'')) of
             (Some (JString k), Some (JString v), Some (JNumber n), Some (JBool d)) \<Rightarrow>
               Some (unhex k, unhex v, word_of_nat n, d)
           | _ \<Rightarrow> None))"

lemma raw_of_line_jsonl:
  "raw_of_line (raw_jsonl r) = Some (rec_key r, rec_value r, rec_seq r, rec_deleted r)"
  by (simp add: raw_of_line_def raw_lines.read_line raw_members_def lit_def unhex_hex)

section \<open>CSV\<close>

fun read_quoted :: "rstring \<Rightarrow> (rstring \<times> rstring) option" where
  "read_quoted [] = None"
| "read_quoted (c # s) =
     (if c = 34 then
        (case s of
           [] \<Rightarrow> Some ([], [])
         | d # t \<Rightarrow> if d = 34 then map_option (apfst ((#) 34)) (read_quoted t) else Some ([], s))
      else map_option (apfst ((#) c)) (read_quoted s))"

definition plain_char :: "nat \<Rightarrow> bool" where
  "plain_char c \<longleftrightarrow> c \<noteq> 34 \<and> c \<noteq> 44 \<and> c \<noteq> 10 \<and> c \<noteq> 13"

text \<open>A cell of RFC 4180: quoted, or up to the next comma, quote or line break.\<close>

definition read_cell :: "rstring \<Rightarrow> (rstring \<times> rstring) option" where
  "read_cell s =
     (case s of
        c # t \<Rightarrow> if c = 34 then read_quoted t else Some (takeWhile plain_char s, dropWhile plain_char s)
      | [] \<Rightarrow> Some ([], []))"

fun read_cells :: "nat \<Rightarrow> rstring \<Rightarrow> rstring list option" where
  "read_cells 0 s = None"
| "read_cells (Suc n) s =
     (case read_cell s of
        None \<Rightarrow> None
      | Some (c, t) \<Rightarrow> if t = [] then Some [c]
          else Option.bind (expect 44 t) (\<lambda>u. map_option ((#) c) (read_cells n u)))"

definition read_row :: "rstring \<Rightarrow> rstring list option" where
  "read_row s = read_cells (Suc (length s)) s"

definition cell_reads :: "rstring \<Rightarrow> rstring \<Rightarrow> bool" where
  "cell_reads c v \<longleftrightarrow> (\<forall>rest. rest = [] \<or> hd rest = 44 \<longrightarrow> read_cell (c @ rest) = Some (v, rest))"

text \<open>jsonguard: a quoted string is one cell, which reads back as the sanitized string.\<close>

definition csv_law :: "csv_quoter \<Rightarrow> (rstring \<Rightarrow> rstring) \<Rightarrow> bool" where
  "csv_law csv_field sanitize \<longleftrightarrow> (\<forall>s. cell_reads (csv_field s) (sanitize s))"

text \<open>jsonguard: a sanitized string does not start like a formula.\<close>

definition formula :: "rstring \<Rightarrow> bool" where
  "formula s \<longleftrightarrow> s \<noteq> [] \<and> hd s \<in> {61, 43, 45, 64}"

definition formula_guard :: "(rstring \<Rightarrow> rstring) \<Rightarrow> bool" where
  "formula_guard sanitize \<longleftrightarrow> (\<forall>s. \<not> formula (sanitize s))"

lemma cell_reads_plain: "\<forall>c \<in> set s. plain_char c \<Longrightarrow> cell_reads s s"
proof -
  assume p: "\<forall>c \<in> set s. plain_char c"
  have "takeWhile plain_char (s @ rest) = s \<and> dropWhile plain_char (s @ rest) = rest"
    if "rest = [] \<or> hd rest = 44" for rest
    using p that by (cases rest) (auto simp: takeWhile_append dropWhile_append plain_char_def)
  with p show ?thesis
    by (cases s) (auto simp: cell_reads_def read_cell_def plain_char_def split: list.splits)
qed

lemma read_cells_join:
  "list_all2 cell_reads cs vs \<Longrightarrow> cs \<noteq> [] \<Longrightarrow> length cs \<le> n \<Longrightarrow> read_cells n (join_comma cs) = Some vs"
proof (induction cs arbitrary: vs n rule: join_comma.induct)
  case 1
  then show ?case by simp
next
  case (2 x)
  then obtain v n' where "vs = [v]" "n = Suc n'" "cell_reads x v"
    by (cases n) (auto simp: list_all2_Cons1)
  moreover from this(3) have "read_cell x = Some (v, [])"
    using cell_reads_def by (metis append_Nil2)
  ultimately show ?case by simp
next
  case (3 x y zs)
  then obtain v vs' n' where "vs = v # vs'" "n = Suc n'" "cell_reads x v"
    "list_all2 cell_reads (y # zs) vs'" "length (y # zs) \<le> n'"
    by (cases n) (auto simp: list_all2_Cons1)
  moreover from this(3) have "read_cell (x @ 44 # join_comma (y # zs)) = Some (v, 44 # join_comma (y # zs))"
    by (simp add: cell_reads_def)
  ultimately show ?case using "3.IH" [of vs' n'] by simp
qed

lemma length_join_comma_le: "length xs \<le> Suc (length (join_comma xs))"
  by (induction xs rule: join_comma.induct) auto

lemma read_row_join:
  "list_all2 cell_reads cs vs \<Longrightarrow> cs \<noteq> [] \<Longrightarrow> read_row (join_comma cs) = Some vs"
  unfolding read_row_def by (rule read_cells_join) (simp_all add: length_join_comma_le)

lemma plain_texts:
  "\<forall>c \<in> set (hex bs). plain_char c" "\<forall>c \<in> set (show_u64 n). plain_char c"
  "\<forall>c \<in> set (show_bool b). plain_char c" "\<forall>c \<in> set (encoding_str e). plain_char c"
proof -
  have h: "is_hex c \<Longrightarrow> plain_char c" for c by (auto simp: is_hex_def is_digit_def plain_char_def)
  show "\<forall>c \<in> set (hex bs). plain_char c" using hex_is_hex h by blast
  show "\<forall>c \<in> set (show_u64 n). plain_char c"
    using dec_digits [of "unat n"] by (auto simp: show_u64_def is_digit_def plain_char_def)
  show "\<forall>c \<in> set (show_bool b). plain_char c" by (simp add: show_bool_def lit_def plain_char_def)
  show "\<forall>c \<in> set (encoding_str e). plain_char c"
    using h hex_fixed_hex by (cases e) (auto simp: lit_def plain_char_def)
qed

lemma not_formula_texts:
  "\<not> formula (hex bs)" "\<not> formula (show_u64 n)" "\<not> formula (show_bool b)"
  "\<not> formula (encoding_str e)" "\<not> formula []"
proof -
  have hd: "s \<noteq> [] \<Longrightarrow> hd s \<in> set s" for s :: rstring by simp
  have h: "is_hex c \<Longrightarrow> c \<notin> {61, 43, 45, 64}" for c by (auto simp: is_hex_def is_digit_def)
  show "\<not> formula (hex bs)" using hex_is_hex h hd unfolding formula_def by blast
  have "is_digit c \<Longrightarrow> c \<notin> {61, 43, 45, 64}" for c by (auto simp: is_digit_def)
  then show "\<not> formula (show_u64 n)" using dec_digits hd unfolding formula_def show_u64_def by blast
  show "\<not> formula (show_bool b)" by (simp add: formula_def show_bool_def lit_def)
  show "\<not> formula (encoding_str e)" by (cases e) (simp_all add: formula_def lit_def)
  show "\<not> formula []" by (simp add: formula_def)
qed

lemmas cell_texts = plain_texts [THEN cell_reads_plain]

lemma cell_reads_lit: "\<forall>c \<in> set (lit s). plain_char c \<Longrightarrow> cell_reads (lit s) (lit s)" "cell_reads [] []"
  by (simp_all add: cell_reads_plain)

text \<open>A row fills the columns of its header, and a spreadsheet runs none of its cells.\<close>

definition aligned_row :: "rstring \<Rightarrow> rstring \<Rightarrow> bool" where
  "aligned_row header row \<longleftrightarrow>
     (\<exists>cs hs. read_row row = Some cs \<and> read_row header = Some hs \<and> length cs = length hs \<and>
        (\<forall>c \<in> set cs. \<not> formula c))"

locale csv_renderer =
  fixes row :: "csv_quoter \<Rightarrow> 'r \<Rightarrow> rstring"
    and cells :: "(rstring \<Rightarrow> rstring) \<Rightarrow> 'r \<Rightarrow> rstring list"
    and header :: rstring
    and columns :: "rstring list"
  assumes row_reads: "csv_law q san \<Longrightarrow> read_row (row q r) = Some (cells san r)"
    and header_reads: "read_row header = Some columns"
    and cells_columns: "length (cells san r) = length columns"
    and cells_safe: "formula_guard san \<Longrightarrow> c \<in> set (cells san r) \<Longrightarrow> \<not> formula c"
begin

text \<open>Every row of the file fills the columns of its header, and none of its cells runs.\<close>

lemma row_safe: "csv_law q san \<Longrightarrow> formula_guard san \<Longrightarrow> aligned_row header (row q r)"
  unfolding aligned_row_def using row_reads header_reads cells_columns cells_safe by metis

end

definition raw_cells :: "(rstring \<Rightarrow> rstring) \<Rightarrow> record_t \<Rightarrow> rstring list" where
  "raw_cells san r =
     [san (path_display (rec_origin r)), show_u64 (rec_seq r), show_bool (rec_deleted r),
      hex (rec_key r), hex (rec_value r)]"

fun local_cells :: "(rstring \<Rightarrow> rstring) \<Rightarrow> local_record \<Rightarrow> rstring list" where
  "local_cells san (Local_Meta origin ts sz seq del) =
     [lit ''meta'', san origin, [], [], [], [], show_u64 ts, opt_text [] (map_option show_u64 sz),
      show_u64 seq, show_bool del]"
| "local_cells san (Local_Data origin script_key val seq del) =
     [lit ''data'', san origin, san (sv_text script_key), san (sv_text val),
      encoding_str (sv_encoding val), show_bool (sv_lossy val), [], [], show_u64 seq, show_bool del]"
| "local_cells san (Local_Other key seq del) =
     [lit ''other'', [], hex key, [], [], [], [], [], show_u64 seq, show_bool del]"

fun session_cells :: "(rstring \<Rightarrow> rstring) \<Rightarrow> session_record \<Rightarrow> rstring list" where
  "session_cells san (Session_Namespace g host mid seq del) =
     [lit ''namespace'', san g, san host, san mid, [], [], [], [], show_u64 seq, show_bool del]"
| "session_cells san (Session_Map mid host script_key val seq del) =
     [lit ''map'', [], san (opt_text [] host), san mid, san script_key, san (sv_text val),
      encoding_str (sv_encoding val), show_bool (sv_lossy val), show_u64 seq, show_bool del]"
| "session_cells san (Session_Other key seq del) =
     [lit ''other'', [], [], [], hex key, [], [], [], show_u64 seq, show_bool del]"

definition raw_columns :: "rstring list" where
  "raw_columns = map lit [''origin_file'', ''seq'', ''deleted'', ''key_hex'', ''value_hex'']"

definition local_columns :: "rstring list" where
  "local_columns = map lit [''kind'', ''origin'', ''key'', ''value'', ''value_encoding'', ''lossy'',
     ''timestamp_webkit_micros'', ''size'', ''seq'', ''deleted'']"

definition session_columns :: "rstring list" where
  "session_columns = map lit [''kind'', ''guid'', ''host'', ''map_id'', ''key'', ''value'',
     ''value_encoding'', ''lossy'', ''seq'', ''deleted'']"

lemma opt_u64_cell:
  "cell_reads (opt_text [] (map_option show_u64 sz)) (opt_text [] (map_option show_u64 sz))"
  "\<not> formula (opt_text [] (map_option show_u64 sz))"
  by (cases sz; simp add: cell_texts cell_reads_lit not_formula_texts)+

lemma header_row:
  assumes "list_all (\<lambda>c. \<forall>x \<in> set c. plain_char x) cs" "cs \<noteq> []" "h = join_comma cs"
  shows "read_row h = Some cs"
  unfolding assms(3) by (rule read_row_join [OF _ assms(2)])
    (use assms(1) in \<open>auto simp: list_all2_conv_all_nth list_all_length intro: cell_reads_plain\<close>)

lemma csv_lawD: "csv_law q san \<Longrightarrow> cell_reads (q s) (san s)"
  by (simp add: csv_law_def)

lemma formula_guardD: "formula_guard san \<Longrightarrow> \<not> formula (san s)"
  by (simp add: formula_guard_def)

lemma cells_lit: "cell_reads s s" "\<not> formula s"
  if "s \<in> {lit ''meta'', lit ''data'', lit ''other'', lit ''namespace'', lit ''map''}"
  using that by (auto simp: lit_def plain_char_def formula_def intro!: cell_reads_plain)

lemmas row_intros = cell_texts cell_reads_lit(2) opt_u64_cell(1) cells_lit(1)

lemmas safe_intros = not_formula_texts opt_u64_cell(2) cells_lit(2) formula_guardD

interpretation raw_rows: csv_renderer raw_csv raw_cells raw_csv_header raw_columns
proof
  show "read_row raw_csv_header = Some raw_columns"
    by (rule header_row) (simp_all add: raw_csv_header_def raw_columns_def lit_def plain_char_def)
  fix q san r c
  show "read_row (raw_csv q r) = Some (raw_cells san r)" if "csv_law q san"
    unfolding raw_csv_def raw_cells_def
    by (rule read_row_join) (simp_all add: csv_lawD [OF that] row_intros)
  show "length (raw_cells san r) = length raw_columns" by (simp add: raw_cells_def raw_columns_def)
  show "\<not> formula c" if "formula_guard san" "c \<in> set (raw_cells san r)"
    using that by (auto simp: raw_cells_def safe_intros)
qed

interpretation local_rows: csv_renderer local_csv local_cells local_csv_header local_columns
proof
  show "read_row local_csv_header = Some local_columns"
    by (rule header_row) (simp_all add: local_csv_header_def local_columns_def lit_def plain_char_def)
  fix q san r c
  show "read_row (local_csv q r) = Some (local_cells san r)" if "csv_law q san"
    by (cases r; simp only: local_csv.simps local_cells.simps; rule read_row_join;
        simp add: csv_lawD [OF that] row_intros)
  show "length (local_cells san r) = length local_columns"
    by (cases r) (simp_all add: local_columns_def)
  show "\<not> formula c" if "formula_guard san" "c \<in> set (local_cells san r)"
    using that by (cases r) (auto simp: safe_intros)
qed

interpretation session_rows: csv_renderer session_csv session_cells session_csv_header session_columns
proof
  show "read_row session_csv_header = Some session_columns"
    by (rule header_row) (simp_all add: session_csv_header_def session_columns_def lit_def plain_char_def)
  fix q san r c
  show "read_row (session_csv q r) = Some (session_cells san r)" if "csv_law q san"
    by (cases r; simp only: session_csv.simps session_cells.simps; rule read_row_join;
        simp add: csv_lawD [OF that] row_intros)
  show "length (session_cells san r) = length session_columns"
    by (cases r) (simp_all add: session_columns_def)
  show "\<not> formula c" if "formula_guard san" "c \<in> set (session_cells san r)"
    using that by (cases r) (auto simp: safe_intros)
qed

end
