(* ===== verification/Cli.thy ===== *)
theory Cli
  imports Render_Lines
begin

text \<open>
  The command line tool, leveldb4n6/src/lib.rs and main.rs: read the directory, decode, render.
  \<open>dump_text\<close> is what a dump is meant to print; \<open>run\<close> prints all of it, or a prefix of it
  when the writer fails, or nothing when the directory cannot be read.
\<close>

datatype mode = Mode_Raw | Mode_Local | Mode_Session

datatype cli_error = Read error | Write io_error

fun cli_error_display :: "cli_error \<Rightarrow> rstring" where
  "cli_error_display (Read e) = lit ''reading LevelDB directory: '' @ error_display e"
| "cli_error_display (Write e) = lit ''writing output: '' @ io_message e"

text \<open>\<open>source()\<close>: the wrapped error, of either crate.\<close>

fun cli_error_source :: "cli_error \<Rightarrow> (error + io_error) option" where
  "cli_error_source (Read e) = Some (Inl e)"
| "cli_error_source (Write e) = Some (Inr e)"

text \<open>What the tool takes from outside: the readers' environment and the other crates.\<close>

record 'w cli_env =
  core :: core_env
  fs :: fs_env
  protobuf :: pb_decoder
  quoter :: csv_quoter
  put :: "'w writer"
  flush :: "'w \<Rightarrow> io_error option \<times> 'w"

definition run ::
    "'w cli_env \<Rightarrow> path \<Rightarrow> mode \<Rightarrow> output_format \<Rightarrow> 'w \<Rightarrow> (cli_error, unit) outcome \<times> 'w" where
  "run C dir m fmt w =
     (case read_dir (core C) (fs C) dir of
        Err e \<Rightarrow> (Err (Read e), w)
      | Panic \<Rightarrow> (Panic, w)
      | Diverge \<Rightarrow> (Diverge, w)
      | Ok recs \<Rightarrow>
          let result =
            (case m of
               Mode_Raw \<Rightarrow> render_raw (quoter C) (put C) recs fmt w
             | Mode_Local \<Rightarrow>
                 render_local (quoter C) (put C) (decode_local_storage_records (protobuf C) recs) fmt w
             | Mode_Session \<Rightarrow>
                 render_session (quoter C) (put C) (decode_session_storage_records recs) fmt w)
          in (case result of
                (None, w') \<Rightarrow> (Ok (), w')
              | (Some e, w') \<Rightarrow> (Err (Write e), w')))"

section \<open>The process\<close>

datatype command = Dump path mode output_format

text \<open>The defaults of the options.\<close>

definition dump_default :: "path \<Rightarrow> command" where
  "dump_default dir = Dump dir Mode_Raw Text"

datatype exit_code = SUCCESS | FAILURE

text \<open>
  The exit code and what is sent to standard error; \<open>'w\<close> is standard output. The results of the
  last flush and of writing to standard error are dropped: an error there changes no exit code.
\<close>

fun main ::
    "'w cli_env \<Rightarrow> command \<Rightarrow> 'w \<Rightarrow> (cli_error, exit_code \<times> rstring) outcome \<times> 'w" where
  "main C (Dump dir m fmt) w =
     (case run C dir m fmt w of
        (Ok _, w') \<Rightarrow> (let (_, w'') = flush C w' in (Ok (SUCCESS, []), w''))
      | (Err e, w') \<Rightarrow> (Ok (FAILURE, lit ''leveldb4n6: '' @ cli_error_display e @ [10]), w')
      | (Panic, w') \<Rightarrow> (Panic, w')
      | (Diverge, w') \<Rightarrow> (Diverge, w'))"

section \<open>What a dump prints\<close>

definition format_text ::
    "rstring \<Rightarrow> ('r \<Rightarrow> rstring) \<Rightarrow> ('r \<Rightarrow> rstring) \<Rightarrow> ('r \<Rightarrow> rstring) \<Rightarrow> output_format \<Rightarrow> 'r list \<Rightarrow> rstring"
where
  "format_text header txt jsonl csv fmt rs =
     (case fmt of
        Text \<Rightarrow> output_of txt rs
      | Jsonl \<Rightarrow> output_of jsonl rs
      | Csv \<Rightarrow> header @ 10 # output_of csv rs)"

definition dump_text ::
    "pb_decoder \<Rightarrow> csv_quoter \<Rightarrow> mode \<Rightarrow> output_format \<Rightarrow> record_t list \<Rightarrow> rstring" where
  "dump_text pb csv_field m fmt recs =
     (case m of
        Mode_Raw \<Rightarrow> format_text raw_csv_header raw_text raw_jsonl (raw_csv csv_field) fmt recs
      | Mode_Local \<Rightarrow>
          format_text local_csv_header local_text local_jsonl (local_csv csv_field) fmt
            (local_decode pb recs)
      | Mode_Session \<Rightarrow>
          format_text session_csv_header session_text session_jsonl (session_csv csv_field) fmt
            (session_decode recs))"

text \<open>
  \<open>Write::write_all\<close>: success appends the text, a failure appends a prefix of it.
\<close>

definition writer_ok :: "'w writer \<Rightarrow> ('w \<Rightarrow> rstring) \<Rightarrow> bool" where
  "writer_ok wr contents \<longleftrightarrow>
     (\<forall>w s w'. wr w s = (None, w') \<longrightarrow> contents w' = contents w @ s) \<and>
     (\<forall>w s e w'. wr w s = (Some e, w') \<longrightarrow> (\<exists>t. prefix t s \<and> contents w' = contents w @ t))"

definition written :: "('w \<Rightarrow> rstring) \<Rightarrow> 'w \<Rightarrow> rstring \<Rightarrow> io_error option \<times> 'w \<Rightarrow> bool" where
  "written contents w s res \<longleftrightarrow>
     (case res of
        (None, w') \<Rightarrow> contents w' = contents w @ s
      | (Some e, w') \<Rightarrow> \<exists>t. prefix t s \<and> contents w' = contents w @ t)"

lemma written_writeln: "writer_ok wr contents \<Longrightarrow> written contents w (line @ [10]) (writeln wr line w)"
  by (auto simp: written_def writeln_def writer_ok_def simp del: prefix_snoc split: prod.splits option.splits)

lemma written_seq:
  assumes "written contents w s m" "\<And>w'. m = (None, w') \<Longrightarrow> written contents w' t (k w')"
  shows "written contents w (s @ t) (case m of (Some e, w') \<Rightarrow> (Some e, w') | (None, w') \<Rightarrow> k w')"
proof (cases m)
  case (Pair a w')
  show ?thesis
  proof (cases a)
    case None
    with Pair assms show ?thesis
      by (auto simp: written_def split: prod.splits option.splits)
  next
    case (Some e)
    with Pair assms(1) show ?thesis by (auto simp: written_def prefix_append)
  qed
qed

lemma written_each:
  "writer_ok wr contents \<Longrightarrow> written contents w (output_of line rs) (write_each wr line rs w)"
proof (induction rs arbitrary: w)
  case Nil
  show ?case by (simp add: written_def)
next
  case (Cons r rs)
  have "written contents w ((line r @ [10]) @ output_of line rs) (write_each wr line (r # rs) w)"
    unfolding write_each.simps
    by (rule written_seq) (rule written_writeln [OF Cons.prems] Cons.IH [OF Cons.prems])+
  then show ?case by simp
qed

lemma written_csv:
  assumes "writer_ok wr contents"
  shows "written contents w (header @ 10 # output_of line rs) (write_csv wr header line rs w)"
proof -
  have "written contents w ((header @ [10]) @ output_of line rs) (write_csv wr header line rs w)"
    unfolding write_csv_def
    by (rule written_seq) (rule written_writeln [OF assms] written_each [OF assms])+
  then show ?thesis by simp
qed

lemmas render_defs = render_raw_def render_local_def render_session_def

lemma written_render:
  assumes "writer_ok wr contents"
  shows "written contents w (format_text raw_csv_header raw_text raw_jsonl (raw_csv q) fmt rs)
      (render_raw q wr rs fmt w)"
    "written contents w (format_text local_csv_header local_text local_jsonl (local_csv q) fmt ls)
      (render_local q wr ls fmt w)"
    "written contents w (format_text session_csv_header session_text session_jsonl (session_csv q) fmt ss)
      (render_session q wr ss fmt w)"
  by (cases fmt; simp add: render_defs format_text_def written_each written_csv assms)+

text \<open>The whole run, once the directory has been read.\<close>

lemma run_read:
  assumes "read_dir (core C) (fs C) dir = Ok recs" "writer_ok (put C) contents"
  shows "\<exists>res w'. run C dir m fmt w =
      ((case res of None \<Rightarrow> Ok () | Some e \<Rightarrow> Err (Write e)), w') \<and>
    written contents w (dump_text (protobuf C) (quoter C) m fmt recs) (res, w')"
proof -
  define result where "result =
    (case m of
       Mode_Raw \<Rightarrow> render_raw (quoter C) (put C) recs fmt w
     | Mode_Local \<Rightarrow>
         render_local (quoter C) (put C) (decode_local_storage_records (protobuf C) recs) fmt w
     | Mode_Session \<Rightarrow>
         render_session (quoter C) (put C) (decode_session_storage_records recs) fmt w)"
  obtain res w' where res: "result = (res, w')" by (cases result)
  have "written contents w (dump_text (protobuf C) (quoter C) m fmt recs) result"
    using written_render [OF assms(2)]
    by (cases m) (simp_all add: result_def dump_text_def decode_local_storage_records_def
        decode_session_storage_records_def)
  moreover have "run C dir m fmt w = ((case res of None \<Rightarrow> Ok () | Some e \<Rightarrow> Err (Write e)), w')"
    using res by (cases res) (simp_all add: run_def assms(1) flip: result_def)
  ultimately show ?thesis using res by auto
qed

lemma run_names:
  assumes "core_ok (core C)" "files_ok (core C) (fs C)" "writer_ok (put C) contents"
    and "list_dir (fs C) dir = Inr (map Inr names)"
    and "recs = concat (map (file_records (core C) (fs C)) (sort (map (entry_path dir) names)))"
  shows "(\<exists>w'. run C dir m fmt w = (Ok (), w') \<and>
      contents w' = contents w @ dump_text (protobuf C) (quoter C) m fmt recs) \<or>
    (\<exists>e t w'. run C dir m fmt w = (Err (Write e), w') \<and> contents w' = contents w @ t \<and>
      prefix t (dump_text (protobuf C) (quoter C) m fmt recs))"
proof -
  have "read_dir (core C) (fs C) dir = Ok recs"
    using read_dir_names [OF assms(1,2,4)] assms(5) by simp
  from run_read [OF this assms(3), of m fmt w] obtain res w' where
    "run C dir m fmt w = ((case res of None \<Rightarrow> Ok () | Some e \<Rightarrow> Err (Write e)), w')"
    "written contents w (dump_text (protobuf C) (quoter C) m fmt recs) (res, w')" by blast
  then show ?thesis by (cases res) (auto simp: written_def)
qed

lemma run_error:
  "read_dir (core C) (fs C) dir = Err e \<Longrightarrow> run C dir m fmt w = (Err (Read e), w)"
  by (simp add: run_def)

text \<open>The outcome of a run on any directory: it never panics and never hangs.\<close>

lemma run_returns:
  assumes "core_ok (core C)" "files_ok (core C) (fs C)"
  shows "returns (fst (run C dir m fmt w))"
proof (cases "list_dir (fs C) dir")
  case (Inl e)
  then show ?thesis by (simp add: run_def read_dir_def)
next
  case (Inr es)
  have "returns (read_dir (core C) (fs C) dir)"
  proof (cases es rule: entries_cases)
    case (1 names)
    with Inr read_dir_names [OF assms] show ?thesis by simp
  next
    case (2 names e rest)
    with Inr show ?thesis by (simp add: read_dir_def collect_paths_error)
  qed
  then show ?thesis
    by (cases "read_dir (core C) (fs C) dir") (simp_all add: run_def Let_def split: prod.splits option.splits)
qed

lemma main_failure:
  assumes "core_ok (core C)" "files_ok (core C) (fs C)"
  shows "\<exists>code err w'. main C (Dump dir m fmt) w = (Ok (code, err), w') \<and>
    (code = FAILURE \<longleftrightarrow> (\<exists>e. fst (run C dir m fmt w) = Err e)) \<and>
    (code = SUCCESS \<longleftrightarrow> err = [])"
proof -
  obtain res w' where r: "run C dir m fmt w = (res, w')" by (cases "run C dir m fmt w")
  with run_returns [OF assms, of dir m fmt w] have "returns res" by simp
  then show ?thesis by (cases res) (simp_all add: r lit_def split: prod.split)
qed

text \<open>Output to memory never fails: \<open>impl Write for Vec<u8>\<close>.\<close>

definition vec_put :: "rstring writer" where
  "vec_put w s = (None, w @ s)"

lemma vec_writer: "writer_ok vec_put id"
  by (simp add: writer_ok_def vec_put_def)

text \<open>A writer with room for \<open>n\<close> more chars, which then reports an error.\<close>

definition bounded_put :: "(nat \<times> rstring) writer" where
  "bounded_put w s =
     (case w of (n, acc) \<Rightarrow>
        if length s \<le> n then (None, (n - length s, acc @ s))
        else (Some (Io_Error (lit ''write zero'')), (0, acc @ take n s)))"

lemma bounded_writer: "writer_ok bounded_put snd"
  by (auto simp: writer_ok_def bounded_put_def take_is_prefix split: prod.splits if_splits)

text \<open>The JSONL dump of a directory, read back line by line.\<close>

lemma jsonl_dump_read:
  "map read_object (text_lines (dump_text pb q Mode_Raw Jsonl recs)) =
     map (\<lambda>r. Some (map (apfst lit) (raw_members r))) recs"
  "map raw_of_line (text_lines (dump_text pb q Mode_Raw Jsonl recs)) =
     map (\<lambda>r. Some (rec_key r, rec_value r, rec_seq r, rec_deleted r)) recs"
  "map read_object (text_lines (dump_text pb q Mode_Local Jsonl recs)) =
     map (\<lambda>r. Some (map (apfst lit) (local_members (local_of pb r)))) recs"
  by (simp_all add: dump_text_def format_text_def raw_lines.output_lines local_lines.output_lines
      raw_lines.read_line local_lines.read_line raw_of_line_jsonl local_decode_def)

end
