(* ===== verification/Reference_Env.thy ===== *)
theory Reference_Env
  imports Wal_Batch
begin

text \<open>
  A concrete environment that keeps every promise the theorems ask of the target and of the
  external crates: a 64-bit \<open>usize\<close>, a LEB128 decoder of at most ten bytes, an additive checksum
  in place of crc32c, and a compressor that stores. It is used to apply the theorems to
  concrete inputs only; nothing rests on the crates behaving this way.
\<close>

fun leb_read :: "nat \<Rightarrow> bytes \<Rightarrow> (nat \<times> nat) option" where
  "leb_read 0 bs = None"
| "leb_read (Suc k) [] = None"
| "leb_read (Suc k) (b # bs) =
     (if unat b < 128 then Some (unat b, 1)
      else map_option (\<lambda>(v, n). (unat b - 128 + 128 * v, Suc n)) (leb_read k bs))"

definition ref_decode_var :: "bytes \<Rightarrow> (u64 \<times> nat) option" where
  "ref_decode_var bs = map_option (\<lambda>(v, n). (word_of_nat v, n)) (leb_read 10 bs)"

definition checksum :: "u32 \<Rightarrow> bytes \<Rightarrow> u32" where
  "checksum c bs = c + word_of_nat (sum_list (map unat bs))"

definition ref_env :: core_env where
  "ref_env = \<lparr>usize_max = 2 ^ 64 - 1, decode_var = ref_decode_var, crc32c = checksum 0,
     crc32c_append = checksum, decompress_len = (\<lambda>d. Some (length d)), decompress_vec = Some\<rparr>"

lemma ref_env_simps [simp]:
  "usize_max ref_env = 2 ^ 64 - 1" "decode_var ref_env = ref_decode_var" "crc32c ref_env = checksum 0"
  "crc32c_append ref_env = checksum" "decompress_len ref_env d = Some (length d)"
  "decompress_vec ref_env = Some"
  by (simp_all add: ref_env_def)

lemma ref_platform: "platform ref_env"
  by (simp add: platform_def)

lemma ref_buffer: "length buf < 2 ^ 63 \<Longrightarrow> buffer_ok ref_env buf"
  by (simp add: buffer_ok_def isize_max_def)

lemma leb_read_bounds: "leb_read k bs = Some (v, n) \<Longrightarrow> 0 < n \<and> n \<le> length bs"
  by (induction k bs arbitrary: v n rule: leb_read.induct) (auto split: if_splits)

lemma leb_read_leb128: "0 < k \<Longrightarrow> n < 128 ^ k \<Longrightarrow> leb_read k (leb128_nat n @ rest) = Some (n, length (leb128_nat n))"
proof (induction k arbitrary: n)
  case 0
  then show ?case by simp
next
  case (Suc k)
  show ?case
  proof (cases "n < 128")
    case True
    then show ?thesis by (simp add: leb128_nat.simps)
  next
    case False
    have "0 < k" using Suc.prems False by (cases k) auto
    moreover have "n div 128 < 128 ^ k" using Suc.prems(2) by (simp add: less_mult_imp_div_less mult.commute)
    ultimately have "leb_read k (leb128_nat (n div 128) @ rest) =
        Some (n div 128, length (leb128_nat (n div 128)))"
      by (rule Suc.IH)
    moreover have "128 + n mod 128 < 256" by (rule less_le_trans [of _ "128 + 128"]) simp_all
    then have "unat (byte_of (128 + n mod 128)) = 128 + n mod 128" by (rule unat_byte)
    ultimately show ?thesis using False by (subst (1 2) leb128_nat.simps) simp
  qed
qed

lemma leb_read_take: "leb_read k (take m bs) = Some r \<Longrightarrow> leb_read k bs = Some r"
proof (induction k bs arbitrary: m r rule: leb_read.induct)
  case (3 k b bs)
  then show ?case by (cases m) (auto split: if_splits)
qed simp_all

lemma ref_varint: "varint_progress ref_env" "varint_leb128 ref_env" "varint_prefix_stable ref_env"
proof -
  show "varint_progress ref_env"
    by (auto simp: varint_progress_def ref_decode_var_def dest: leb_read_bounds)
  have "leb_read 10 (leb128 v @ rest) = Some (unat v, length (leb128 v))" for v rest
  proof -
    have "unat v < 2 ^ 64" using unsigned_less [of v] by simp
    also have "(2::nat) ^ 64 < 128 ^ 10" by simp
    finally show ?thesis by (simp add: leb128_def leb_read_leb128)
  qed
  then show "varint_leb128 ref_env" by (simp add: varint_leb128_def ref_decode_var_def)
  show "varint_prefix_stable ref_env"
    by (auto simp: varint_prefix_stable_def ref_decode_var_def dest: leb_read_take)
qed

lemma ref_snappy: "snappy_length ref_env" "snappy_inverts ref_env (\<lambda>d. d)"
  by (simp_all add: snappy_length_def snappy_inverts_def)

lemmas ref_facts = ref_platform ref_varint ref_snappy

end
