(* ===== verification/Wal_Writer.thy ===== *)
theory Wal_Writer
  imports Wal_Recovery Wal_Batch
begin

text \<open>
  The log format as a writer, and the reader as its inverse. \<open>write_record\<close> lays a logical
  record out from an offset inside a 32 KiB block the way the format document of log.rs says:
  a tail of fewer than seven bytes is zero-filled, a record that does not fit the block is
  split into FIRST, MIDDLE and LAST fragments. \<open>log_roundtrip_lemma\<close> covers batches of any
  size, split over any number of blocks, and a preallocated zero tail of the file.
\<close>

definition phys_bytes :: "core_env \<Rightarrow> u8 \<Rightarrow> bytes \<Rightarrow> bytes" where
  "phys_bytes E t d = to_le 4 (unat (record_crc E t d)) @ to_le 2 (length d) @ [t] @ d"

definition fragment_type :: "bool \<Rightarrow> bool \<Rightarrow> u8" where
  "fragment_type begins ends =
     (if begins then (if ends then REC_FULL else REC_FIRST)
      else (if ends then REC_LAST else REC_MIDDLE))"

function write_record :: "core_env \<Rightarrow> nat \<Rightarrow> bool \<Rightarrow> bytes \<Rightarrow> bytes" where
  "write_record E off begins d =
     (if BLOCK_SIZE < off + HEADER_SIZE \<and> 0 < off then
        replicate (BLOCK_SIZE - off) 0 @ write_record E 0 begins d
      else
        let avail = BLOCK_SIZE - off - HEADER_SIZE in
        if length d \<le> avail then phys_bytes E (fragment_type begins True) d
        else phys_bytes E (fragment_type begins False) (take avail d)
               @ write_record E BLOCK_SIZE False (drop avail d))"
  by pat_completeness auto
termination
  by (relation "measures [\<lambda>(E, off, b, d). if off = 0 then 2 * length d
        else if BLOCK_SIZE < off + HEADER_SIZE then 2 * length d + 1
        else 2 * length d + 2]")
    (auto simp: BLOCK_SIZE_def HEADER_SIZE_def)

declare write_record.simps [simp del]

fun write_log :: "core_env \<Rightarrow> nat \<Rightarrow> bytes list \<Rightarrow> bytes" where
  "write_log E off [] = []"
| "write_log E off (b # bs) =
     (let r = write_record E off True b in
      r @ write_log E ((off + length r) mod BLOCK_SIZE) bs)"

section \<open>Reading one physical record back\<close>

lemma length_phys_bytes [simp]: "length (phys_bytes E t d) = HEADER_SIZE + length d"
  by (simp add: phys_bytes_def HEADER_SIZE_def)

lemma scan_block_phys:
  assumes "t \<noteq> 0" "length d < 65536"
  shows "scan_block E (phys_bytes E t d @ r) = Phys t d True # scan_block E r"
proof -
  let ?bs = "phys_bytes E t d @ r"
  have crc: "u32_from_le_bytes (take 4 ?bs) = record_crc E t d"
    by (simp add: phys_bytes_def le_simps)
  have len: "unat (u16_from_le_bytes (take 2 (drop 4 ?bs))) = length d"
    using assms(2) by (simp add: phys_bytes_def le_simps)
  have t: "?bs ! 6 = t" by (simp add: phys_bytes_def nth_append)
  have rest: "drop HEADER_SIZE ?bs = d @ r" by (simp add: phys_bytes_def HEADER_SIZE_def)
  have "scan_block E ?bs = Phys (?bs ! 6) (take (length d) (d @ r))
      (record_crc E (?bs ! 6) (take (length d) (d @ r)) = record_crc E t d)
      # scan_block E (drop (length d) (d @ r))"
    by (rule scan_block_cons) (use crc len t rest assms in auto)
  then show ?thesis by (simp add: t)
qed

lemma from_le_zeros: "from_le (replicate n 0) = 0"
  by (induction n) simp_all

lemma scan_block_zeros [simp]: "scan_block E (replicate k 0) = []"
proof (cases "k < HEADER_SIZE")
  case True
  then show ?thesis by (simp add: scan_block_short)
next
  case False
  then have "u32_from_le_bytes (take 4 (replicate k 0)) = 0"
    "u16_from_le_bytes (take 2 (drop 4 (replicate k 0))) = 0" "replicate k (0::u8) ! 6 = 0"
    by (simp_all add: u32_from_le_bytes_def u16_from_le_bytes_def from_le_zeros HEADER_SIZE_def)
  then show ?thesis by (subst scan_block.simps) simp
qed

lemma phys_records_zeros [simp]: "phys_records E (replicate k 0) = []"
proof (induction k rule: less_induct)
  case (less k)
  show ?case
  proof (cases "k = 0")
    case False
    then have "replicate k (0::u8) \<noteq> []" "k - BLOCK_SIZE < k" by (auto simp: BLOCK_SIZE_def)
    with less [of "k - BLOCK_SIZE"] phys_records_step [of "replicate k 0" E] show ?thesis by simp
  qed simp
qed

section \<open>Scanning from inside a block\<close>

definition scan_from :: "core_env \<Rightarrow> nat \<Rightarrow> bytes \<Rightarrow> phys list" where
  "scan_from E off bs =
     scan_block E (take (BLOCK_SIZE - off) bs) @ phys_records E (drop (BLOCK_SIZE - off) bs)"

lemma scan_from_0: "scan_from E 0 bs = phys_records E bs"
  by (cases "bs = []") (simp_all add: scan_from_def phys_records_step [of bs] scan_block_short HEADER_SIZE_def)

lemma scan_from_mod: "off \<le> BLOCK_SIZE \<Longrightarrow> scan_from E off bs = scan_from E (off mod BLOCK_SIZE) bs"
proof (cases "off = BLOCK_SIZE")
  case True
  then show ?thesis using scan_from_0 [of E bs] by (simp add: scan_from_def scan_block_short HEADER_SIZE_def)
qed simp

lemma scan_from_zeros: "scan_from E off (replicate k 0) = []"
  by (simp add: scan_from_def)

lemma scan_from_pad:
  assumes "BLOCK_SIZE < off + HEADER_SIZE" "off \<le> BLOCK_SIZE"
  shows "scan_from E off (replicate (BLOCK_SIZE - off) 0 @ r) = scan_from E 0 r"
  using assms by (simp add: scan_from_0) (simp add: scan_from_def)

lemma scan_from_phys:
  assumes "t \<noteq> 0" "off + HEADER_SIZE + length d \<le> BLOCK_SIZE"
  shows "scan_from E off (phys_bytes E t d @ r) = Phys t d True # scan_from E (off + HEADER_SIZE + length d) r"
proof -
  have "length d < 65536" using assms(2) by (simp add: BLOCK_SIZE_def)
  moreover have "BLOCK_SIZE - off - (HEADER_SIZE + length d) = BLOCK_SIZE - (off + HEADER_SIZE + length d)"
    by simp
  moreover have "HEADER_SIZE + length d \<le> BLOCK_SIZE - off" using assms(2) by linarith
  ultimately show ?thesis
    using scan_block_phys [OF assms(1)] by (simp add: scan_from_def)
qed

lemma fragment_type_nonzero [simp]: "fragment_type b e \<noteq> 0"
  by (simp add: fragment_type_def rec_type_defs)

text \<open>
  The physical records of a written logical record form one intact run with its data; in the
  middle of a record they complete the run that is open.
\<close>

definition completes :: "bool \<Rightarrow> bytes \<Rightarrow> phys list \<Rightarrow> bool" where
  "completes begins d ps \<longleftrightarrow>
     (if begins then intact_run ps d
      else (\<forall>qs f. open_run qs f \<longrightarrow> intact_run (qs @ ps) (f @ d)))"

lemma completes_single: "completes begins d [Phys (fragment_type begins True) d True]"
  using intact_run.full [of "Phys REC_FULL d True"] intact_run.chain [of _ _ "Phys REC_LAST d True"]
  by (auto simp: completes_def fragment_type_def)

lemma completes_Cons:
  assumes "completes False (drop n d) ps"
  shows "completes begins d (Phys (fragment_type begins False) (take n d) True # ps)"
proof -
  have r: "open_run qs f \<Longrightarrow> intact_run (qs @ ps) (f @ drop n d)" for qs f
    using assms by (simp add: completes_def)
  have "intact_run (Phys REC_FIRST (take n d) True # ps) d"
    using r [OF open_run.first [of "Phys REC_FIRST (take n d) True"]] by simp
  moreover have "intact_run (qs @ Phys REC_MIDDLE (take n d) True # ps) (f @ d)"
    if "open_run qs f" for qs f
    using r [OF open_run.middle [OF that, of "Phys REC_MIDDLE (take n d) True"]] by simp
  ultimately show ?thesis by (simp add: completes_def fragment_type_def)
qed

lemma scan_write_record:
  "off \<le> BLOCK_SIZE \<Longrightarrow>
   \<exists>ps. scan_from E off (write_record E off begins d @ r) =
      ps @ scan_from E ((off + length (write_record E off begins d)) mod BLOCK_SIZE) r
    \<and> completes begins d ps"
proof (induction E off begins d rule: write_record.induct)
  case (1 E off begins d)
  define avail where "avail = BLOCK_SIZE - off - HEADER_SIZE"
  have bs: "HEADER_SIZE \<le> BLOCK_SIZE" by (simp add: BLOCK_SIZE_def HEADER_SIZE_def)
  consider "BLOCK_SIZE < off + HEADER_SIZE" "0 < off"
    | "off + HEADER_SIZE \<le> BLOCK_SIZE" "length d \<le> avail"
    | "off + HEADER_SIZE \<le> BLOCK_SIZE" "avail < length d"
    using bs by linarith
  then show ?case
  proof cases
    case 1
    let ?w = "write_record E 0 begins d"
    from "1.IH"(1) [OF conjI [OF 1]] obtain ps where
      "scan_from E 0 (?w @ r) = ps @ scan_from E (length ?w mod BLOCK_SIZE) r" "completes begins d ps"
      by auto
    moreover have w: "write_record E off begins d = replicate (BLOCK_SIZE - off) 0 @ ?w"
      using 1 by (subst write_record.simps) simp
    ultimately show ?thesis
      using scan_from_pad [OF 1(1) "1.prems", of E "?w @ r"] "1.prems" by auto
  next
    case 2
    let ?t = "fragment_type begins True"
    have w: "write_record E off begins d = phys_bytes E ?t d"
      using 2 by (subst write_record.simps) (auto simp: avail_def Let_def)
    have "off + HEADER_SIZE + length d \<le> BLOCK_SIZE" using 2 by (simp add: avail_def)
    then have "scan_from E off (phys_bytes E ?t d @ r) =
        [Phys ?t d True] @ scan_from E ((off + length (phys_bytes E ?t d)) mod BLOCK_SIZE) r"
      using scan_from_phys [of ?t off d E r] scan_from_mod [of "off + HEADER_SIZE + length d" E r]
      by (simp add: add.assoc)
    then show ?thesis unfolding w using completes_single by blast
  next
    case 3
    let ?t = "fragment_type begins False" and ?w = "write_record E BLOCK_SIZE False (drop avail d)"
    have w: "write_record E off begins d = phys_bytes E ?t (take avail d) @ ?w"
      using 3 by (subst write_record.simps) (auto simp: avail_def Let_def)
    have len: "off + HEADER_SIZE + length (take avail d) = BLOCK_SIZE" using 3 by (simp add: avail_def)
    from 3 have "\<not> (BLOCK_SIZE < off + HEADER_SIZE \<and> 0 < off)" "\<not> length d \<le> avail" by auto
    from "1.IH"(2) [OF this(1) avail_def this(2)] obtain ps where
      ps: "scan_from E BLOCK_SIZE (?w @ r) = ps @ scan_from E ((BLOCK_SIZE + length ?w) mod BLOCK_SIZE) r"
        "completes False (drop avail d) ps" by auto
    have "scan_from E off (write_record E off begins d @ r) =
        Phys ?t (take avail d) True # scan_from E BLOCK_SIZE (?w @ r)"
      using scan_from_phys [of ?t off "take avail d" E "?w @ r"] len by (simp add: w)
    moreover have "off + length (write_record E off begins d) = BLOCK_SIZE + length ?w"
      using len by (simp add: w)
    ultimately show ?thesis using ps completes_Cons [OF ps(2), of begins] by auto
  qed
qed

lemma scan_write_log:
  "off < BLOCK_SIZE \<Longrightarrow>
   \<exists>off'. assemble s (scan_from E off (write_log E off bs @ replicate k 0)) = bs @ assemble Idle (scan_from E off' (replicate k 0))"
proof (induction bs arbitrary: off s)
  case Nil
  then show ?case by (simp add: scan_from_zeros)
next
  case (Cons b bs)
  let ?r = "write_record E off True b"
  let ?off = "(off + length ?r) mod BLOCK_SIZE"
  let ?tl = "write_log E ?off bs @ replicate k 0"
  have "off \<le> BLOCK_SIZE" using Cons.prems by simp
  from scan_write_record [OF this, of E True b ?tl] obtain ps where
    ps: "scan_from E off (?r @ ?tl) = ps @ scan_from E ?off ?tl" "intact_run ps b"
    by (auto simp: completes_def)
  have "?off < BLOCK_SIZE" by (simp add: BLOCK_SIZE_def)
  from Cons.IH [OF this, of Idle] ps intact_run_reasm [OF ps(2), of s] show ?case
    by (auto simp: assemble_append Let_def)
qed

lemma log_batches_written: "log_batches E (write_log E 0 bs @ replicate k 0) = bs"
  using scan_write_log [of 0 Idle E bs k]
  by (auto simp: log_batches_def scan_from_zeros scan_from_0 BLOCK_SIZE_def)

end
