(* ===== verification/Wal_Commit.thy ===== *)
theory Wal_Commit
  imports Wal_Writer Reader_Lib
begin

text \<open>
  The reader against a log that is being written. \<open>append_batch\<close> is the step of the writer of
  the log format: it appends one batch to the file. A snapshot taken at any later time, cut
  off at any byte past what was committed, yields the committed batches and no batch that was
  not appended.
\<close>

definition encoded :: "(u64 \<times> op list) list \<Rightarrow> bytes list" where
  "encoded bs = map (\<lambda>(seq, ops). encode_batch seq ops) bs"

definition records_of :: "path \<Rightarrow> (u64 \<times> op list) list \<Rightarrow> record_t list" where
  "records_of origin bs = concat (map (\<lambda>(seq, ops). op_records origin seq ops) bs)"

definition counts_ok :: "(u64 \<times> op list) list \<Rightarrow> bool" where
  "counts_ok bs \<longleftrightarrow> (\<forall>(seq, ops) \<in> set bs. length ops < 2 ^ 32)"

text \<open>A written log, and any preallocated zero tail, reads back as its batches.\<close>

lemma parse_log_written:
  assumes "platform E" "varint_leb128 E" "buffer_ok E buf"
    and "buf = write_log E 0 (encoded bs) @ replicate k 0" "counts_ok bs"
  shows "parse_log E buf origin = Ok (records_of origin bs)"
proof -
  have lb: "log_batches E buf = encoded bs" unfolding assms(4) by (rule log_batches_written)
  have "batch_records E origin (encode_batch seq ops) = op_records origin seq ops"
    if "(seq, ops) \<in> set bs" for seq ops
  proof -
    have "encode_batch seq ops \<in> set (log_batches E buf)" using that by (force simp: lb encoded_def)
    then have "length (encode_batch seq ops) \<le> usize_max E"
      using log_batch_length buffer_ok_usize [OF assms(3)] order_trans by blast
    with assms(1,2,5) that show ?thesis
      unfolding counts_ok_def by (fastforce intro: batch_records_encoded)
  qed
  then have "map (batch_records E origin) (encoded bs) = map (\<lambda>(seq, ops). op_records origin seq ops) bs"
    by (auto simp: encoded_def)
  then show ?thesis by (simp add: parse_log_eq [OF assms(1,3)] lb records_of_def)
qed

section \<open>The writer\<close>

type_synonym wal = "(u64 \<times> op list) list \<times> bytes"

inductive append_batch :: "core_env \<Rightarrow> wal \<Rightarrow> wal \<Rightarrow> bool" for E where
  "append_batch E (bs, file)
     (bs @ [(seq, ops)], file @ write_record E (length file mod BLOCK_SIZE) True (encode_batch seq ops))"

inductive_cases append_batchE: "append_batch E (bs, file) w"

abbreviation appends :: "core_env \<Rightarrow> wal \<Rightarrow> wal \<Rightarrow> bool" where
  "appends E \<equiv> (append_batch E)\<^sup>*\<^sup>*"

lemma write_log_append:
  "off < BLOCK_SIZE \<Longrightarrow> write_log E off (xs @ ys) =
     write_log E off xs @ write_log E ((off + length (write_log E off xs)) mod BLOCK_SIZE) ys"
proof (induction xs arbitrary: off)
  case Nil
  then show ?case by simp
next
  case (Cons x xs)
  let ?r = "write_record E off True x"
  have "(off + length ?r) mod BLOCK_SIZE < BLOCK_SIZE" by (simp add: BLOCK_SIZE_def)
  from Cons.IH [OF this] show ?case by (simp add: Let_def mod_add_left_eq add.assoc)
qed

lemma append_batch_log:
  assumes "append_batch E w w'" "snd w = write_log E 0 (encoded (fst w))"
  shows "snd w' = write_log E 0 (encoded (fst w'))"
proof -
  have "0 < BLOCK_SIZE" by (simp add: BLOCK_SIZE_def)
  with assms show ?thesis
    by (cases rule: append_batch.cases) (simp add: encoded_def write_log_append)
qed

lemma appends_log:
  "appends E w w' \<Longrightarrow> snd w = write_log E 0 (encoded (fst w)) \<Longrightarrow>
   snd w' = write_log E 0 (encoded (fst w'))"
  by (induction rule: rtranclp_induct) (auto dest: append_batch_log)

lemma appends_prefix: "appends E w w' \<Longrightarrow> prefix (snd w) (snd w') \<and> prefix (fst w) (fst w')"
proof (induction rule: rtranclp_induct)
  case base
  show ?case by simp
next
  case (step w1 w2)
  from step.hyps(2) have "prefix (snd w1) (snd w2) \<and> prefix (fst w1) (fst w2)" by cases simp
  with step.IH show ?case by (meson prefix_order.trans)
qed

lemma buffer_ok_prefix: "buffer_ok E buf \<Longrightarrow> prefix b buf \<Longrightarrow> buffer_ok E b"
  using prefix_length_le [of b buf] by (simp add: buffer_ok_def)

lemma parse_log_prefix:
  assumes "platform E" "buffer_ok E buf" "prefix b buf"
    and "parse_log E b origin = Ok rs'" "parse_log E buf origin = Ok rs"
  shows "prefix rs' rs"
proof -
  obtain n where b: "b = take n buf" using assms(3) by (metis append_eq_conv_conj prefix_def)
  note ok = buffer_ok_prefix [OF assms(2,3)]
  have "rs' = concat (map (batch_records E origin) (log_batches E b))"
    "rs = concat (map (batch_records E origin) (log_batches E buf))"
    using parse_log_eq [OF assms(1) ok, of origin] parse_log_eq [OF assms(1,2), of origin] assms(4,5)
    by simp_all
  then show ?thesis using prefix_concat_map [OF log_batches_take [of E n buf]] by (simp add: b)
qed

text \<open>Committed batches are reported by every later snapshot, and nothing else is.\<close>

lemma snapshot_sandwich:
  assumes E: "platform E" "varint_leb128 E"
    and runs: "appends E ([], []) (bs, file)" "appends E (bs, file) (bs', file')"
    and ok: "buffer_ok E file'" "counts_ok bs'"
    and snap: "length file \<le> n" "parse_log E (take n file') origin = Ok rs"
  shows "prefix (records_of origin bs) rs \<and> prefix rs (records_of origin bs')"
proof -
  have logs: "file = write_log E 0 (encoded bs)" "file' = write_log E 0 (encoded bs')"
    using appends_log [OF runs(1)] appends_log [OF rtranclp_trans [OF runs]] by (simp_all add: encoded_def)
  have pre: "prefix file file'" "prefix bs bs'" using appends_prefix [OF runs(2)] by simp_all
  have "counts_ok bs" using ok(2) pre(2) by (auto simp: counts_ok_def prefix_def)
  then have p: "parse_log E file origin = Ok (records_of origin bs)"
    using parse_log_written [OF E buffer_ok_prefix [OF ok(1) pre(1)], of bs 0] logs(1) by simp
  have p': "parse_log E file' origin = Ok (records_of origin bs')"
    using parse_log_written [OF E ok(1), of bs' 0] logs(2) ok(2) by simp
  have "prefix file (take n file')"
    using pre(1) snap(1) by (auto simp: prefix_def)
  moreover have "prefix (take n file') file'" by (rule take_is_prefix)
  ultimately show ?thesis
    using parse_log_prefix [OF E(1) buffer_ok_prefix [OF ok(1) take_is_prefix] _ p snap(2)]
      parse_log_prefix [OF E(1) ok(1) _ snap(2) p'] by blast
qed

end
