(* ===== verification/Wal_Machine.thy ===== *)
theory Wal_Machine
  imports Wal_Batch
begin

text \<open>
  The log reader as a transition system, \<open>log_step\<close>: a configuration is a control point of
  \<open>parse_log\<close> with the values of its local variables there, a step is one evaluation of a loop
  test with the body up to the next test, and a configuration in which the code would panic is
  stuck. The reachable configurations keep \<open>conf_ok\<close>, are never stuck, and come closer to the
  end with every step; the runs are those of the recursive definitions of \<open>Wal_Log\<close>.
\<close>

section \<open>Frames\<close>

text \<open>
  The test of the inner loop and its body up to the reassembly: \<open>None\<close> where the loop is left,
  else the type, data and check of the physical record and the position after it.
\<close>

definition read_frame ::
    "core_env \<Rightarrow> bytes \<Rightarrow> nat \<Rightarrow> (error, (u8 \<times> bytes \<times> bool \<times> nat) option) outcome" where
  "read_frame E block pos =
     bind (plus_usize E pos HEADER_SIZE) (\<lambda>header_end.
     if header_end \<le> length block then
       bind (slice block pos header_end) (\<lambda>header.
       bind (idx header [0, 1, 2, 3]) (\<lambda>crc_bytes.
       bind (idx header [4, 5]) (\<lambda>len_bytes.
       bind (idx header [6]) (\<lambda>type_byte.
       let stored_crc = u32_from_le_bytes crc_bytes;
           len = unat (u16_from_le_bytes len_bytes);
           record_type = hd type_byte
       in if record_type = 0 \<and> len = 0 \<and> stored_crc = 0 then Ok None
          else
            bind (plus_usize E pos HEADER_SIZE) (\<lambda>data_start.
            case checked_add E data_start len of
              None \<Rightarrow> Ok None
            | Some data_end \<Rightarrow>
                if data_end \<le> length block then
                  bind (slice block data_start data_end) (\<lambda>dat.
                  Ok (Some (record_type, dat, record_crc E record_type dat = stored_crc, data_end)))
                else Ok None)))))
     else Ok None)"

lemma bind_assoc: "bind (bind m f) g = bind m (\<lambda>x. bind (f x) g)"
  by (cases m) simp_all

lemma block_loop_frame:
  "block_loop E origin block pos st =
     bind (read_frame E block pos) (\<lambda>f. case f of
       None \<Rightarrow> Ok st
     | Some (t, d, ok, data_end) \<Rightarrow>
         bind (reassemble E origin t d ok st) (\<lambda>st. block_loop E origin block data_end st))"
  by (subst block_loop.simps)
    (auto simp: read_frame_def bind_assoc Let_def intro!: bind_cong split: option.splits)

lemma read_frame_returns:
  assumes "length block \<le> BLOCK_SIZE" "pos \<le> length block" "platform E"
  shows "\<exists>f. read_frame E block pos = Ok f"
proof -
  have E: "pos + HEADER_SIZE \<le> usize_max E"
    using assms platform_bounds [OF assms(3)] by (simp add: BLOCK_SIZE_def HEADER_SIZE_def)
  show ?thesis
  proof (cases "pos + 7 \<le> length block")
    case True
    then have l: "7 \<le> length (drop pos block)" by simp
    from True E show ?thesis
      by (auto simp: read_frame_def plus_usize_def checked_add_def slice_Ok HEADER_SIZE_def
          idx_header [OF l, simplified] Let_def)
  next
    case False
    with E show ?thesis by (simp add: read_frame_def plus_usize_def checked_add_def HEADER_SIZE_def)
  qed
qed

lemma read_frame_Some:
  assumes "read_frame E block pos = Ok (Some (t, d, ok, e))"
  shows "e \<le> length block \<and> e = pos + HEADER_SIZE + length d \<and>
    d = take (length d) (drop (pos + HEADER_SIZE) block)"
  using assms
  by (auto simp: read_frame_def bind_eq_Ok plus_usize_Ok checked_add_eq_Some Let_def slice_def
      get_range_def split: if_splits option.splits)

section \<open>Configurations and steps\<close>

datatype log_conf = Outer nat log_state | Inner nat bytes nat log_state | Done log_state

definition initial_state :: log_state where
  "initial_state = \<lparr>fragment = [], in_record = False, records = []\<rparr>"

inductive log_step :: "core_env \<Rightarrow> path \<Rightarrow> bytes \<Rightarrow> log_conf \<Rightarrow> log_conf \<Rightarrow> bool"
  for E origin buf where
  finish: "\<not> block_start < length buf \<Longrightarrow> log_step E origin buf (Outer block_start st) (Done st)"
| enter: "block_start < length buf \<Longrightarrow>
    block_end = min (saturating_add E block_start BLOCK_SIZE) (length buf) \<Longrightarrow>
    get_range buf block_start block_end = Some block \<Longrightarrow>
    log_step E origin buf (Outer block_start st) (Inner block_end block 0 st)"
| leave: "read_frame E block pos = Ok None \<Longrightarrow>
    log_step E origin buf (Inner block_end block pos st) (Outer block_end st)"
| record_read: "read_frame E block pos = Ok (Some (t, d, ok, data_end)) \<Longrightarrow>
    reassemble E origin t d ok st = Ok st' \<Longrightarrow>
    log_step E origin buf (Inner block_end block pos st) (Inner block_end block data_end st')"

inductive_cases OuterE: "log_step E origin buf (Outer block_start st) c"
inductive_cases InnerE: "log_step E origin buf (Inner block_end block pos st) c"
inductive_cases DoneE: "log_step E origin buf (Done st) c"

lemma log_step_deterministic:
  "log_step E origin buf c c1 \<Longrightarrow> log_step E origin buf c c2 \<Longrightarrow> c1 = c2"
  by (induction rule: log_step.induct) (auto elim: OuterE InnerE)

section \<open>The invariant\<close>

text \<open>
  A fragment is held only inside a record, and what is held, the fragment and the records
  found so far, fits in the bytes consumed so far.
\<close>

definition held :: "log_state \<Rightarrow> nat" where
  "held st = length (fragment st) + sum_list (map record_cost (records st))"

definition state_ok :: "path \<Rightarrow> nat \<Rightarrow> log_state \<Rightarrow> bool" where
  "state_ok origin consumed st \<longleftrightarrow>
     (fragment st \<noteq> [] \<longrightarrow> in_record st) \<and> held st \<le> consumed \<and>
     (\<forall>r \<in> set (records st). rec_origin r = origin)"

fun conf_ok :: "path \<Rightarrow> bytes \<Rightarrow> log_conf \<Rightarrow> bool" where
  "conf_ok origin buf (Outer block_start st) \<longleftrightarrow>
     block_start \<le> length buf \<and> state_ok origin block_start st"
| "conf_ok origin buf (Inner block_end block pos st) \<longleftrightarrow>
     block_end \<le> length buf \<and> length block \<le> block_end \<and> block \<noteq> [] \<and> length block \<le> BLOCK_SIZE \<and>
     pos \<le> length block \<and> state_ok origin (block_end - length block + pos) st"
| "conf_ok origin buf (Done st) \<longleftrightarrow> state_ok origin (length buf) st"

lemma state_ok_mono: "state_ok origin m st \<Longrightarrow> m \<le> n \<Longrightarrow> state_ok origin n st"
  by (auto simp: state_ok_def)

lemma state_ok_batch:
  assumes "varint_progress E" "length b \<le> usize_max E"
    and "held st \<le> n" "\<forall>r \<in> set (records st). rec_origin r = origin"
    and "length b \<le> length (fragment st) + m"
  shows "state_ok origin (n + m)
    (st\<lparr>fragment := [], in_record := False, records := records st @ batch_records E origin b\<rparr>)"
  using batch_records_cost [OF assms(1,2), of origin] batch_records_origin [of _ E origin b] assms(2-)
  by (auto simp: state_ok_def held_def)

lemma reassemble_state_ok:
  assumes E: "varint_progress E" and st: "state_ok origin n st" and n: "n + length d \<le> usize_max E"
    and r: "reassemble E origin t d ok st = Ok st'"
  shows "state_ok origin (n + length d) st'"
proof -
  have len: "length d \<le> usize_max E" "length (fragment st @ d) \<le> usize_max E"
    using st n by (auto simp: state_ok_def held_def)
  have old: "held st \<le> n" "\<forall>r \<in> set (records st). rec_origin r = origin"
    using st by (auto simp: state_ok_def)
  note batch = state_ok_batch [OF E len(1) old, of "length d"] state_ok_batch [OF E len(2) old, of "length d"]
  have kept: "state_ok origin (n + length d) (st\<lparr>fragment := f, in_record := b\<rparr>)"
    if "length f \<le> length (fragment st) + length d" "f \<noteq> [] \<longrightarrow> b" for f b
    using that old by (auto simp: state_ok_def held_def)
  have upd: "st\<lparr>in_record := x, fragment := y\<rparr> = st\<lparr>fragment := y, in_record := x\<rparr>"
    "st\<lparr>fragment := y, records := z, in_record := x\<rparr> = st\<lparr>fragment := y, in_record := x, records := z\<rparr>"
    "st\<lparr>fragment := y, records := z, fragment := w, in_record := x\<rparr>
       = st\<lparr>fragment := w, in_record := x, records := z\<rparr>"
    "st\<lparr>records := z, fragment := y, in_record := x\<rparr> = st\<lparr>fragment := y, in_record := x, records := z\<rparr>"
    for x y z w by (cases st; simp)+
  have same: "state_ok origin (n + length d) (st\<lparr>fragment := fragment st @ d\<rparr>)" if "in_record st"
    using that old by (auto simp: state_ok_def held_def)
  show ?thesis
    using r batch same
    by (auto simp: reassemble_def parse_write_batch_eq Let_def upd kept split: if_splits)
qed

lemma conf_ok_step:
  assumes "log_step E origin buf c c'" "conf_ok origin buf c"
    and E: "platform E" "varint_progress E" and buf: "buffer_ok E buf"
  shows "conf_ok origin buf c'"
  using assms(1,2)
proof cases
  case (finish block_start st)
  with assms(2) show ?thesis by (auto intro: state_ok_mono)
next
  case (enter block_start block_end block st)
  then have "length block = block_end - block_start" "block_start < block_end" "block_end \<le> length buf"
    "block_end \<le> block_start + BLOCK_SIZE"
    using buffer_ok_usize [OF buf]
    by (auto simp: get_range_eq_Some saturating_add_def BLOCK_SIZE_def min_def split: if_splits)
  with enter assms(2) show ?thesis by auto
next
  case (leave block pos block_end st)
  with assms(2) show ?thesis by (auto intro: state_ok_mono)
next
  case (record_read block pos t d ok data_end st st' block_end)
  note f = read_frame_Some [OF record_read(3)]
  from record_read assms(2) have ok: "state_ok origin (block_end - length block + pos) st"
    "block_end \<le> length buf" "length block \<le> block_end" by auto
  have "block_end - length block + pos + length d \<le> usize_max E"
    using ok(2,3) f buffer_ok_usize [OF buf] by linarith
  from reassemble_state_ok [OF E(2) ok(1) this record_read(4)] record_read assms(2) f
  show ?thesis by (auto intro: state_ok_mono)
qed

lemma initial_ok: "conf_ok origin buf (Outer 0 initial_state)"
  by (simp add: state_ok_def held_def initial_state_def)

lemma reachable_ok:
  assumes "(log_step E origin buf)\<^sup>*\<^sup>* (Outer 0 initial_state) c"
    and "platform E" "varint_progress E" "buffer_ok E buf"
  shows "conf_ok origin buf c"
  using assms(1) by (induction rule: rtranclp_induct) (use initial_ok conf_ok_step [OF _ _ assms(2-)] in blast)+

section \<open>Progress\<close>

lemma reassemble_returns: "\<exists>st'. reassemble E origin t d ok st = Ok st'"
  by (auto simp: reassemble_def parse_write_batch_eq Let_def)

lemma log_step_progress:
  assumes "conf_ok origin buf c" "platform E" "buffer_ok E buf"
  shows "(\<exists>st. c = Done st) \<or> (\<exists>c'. log_step E origin buf c c')"
proof (cases c)
  case (Outer block_start st)
  show ?thesis
  proof (cases "block_start < length buf")
    case True
    let ?e = "min (saturating_add E block_start BLOCK_SIZE) (length buf)"
    have "block_start \<le> ?e"
      using True buffer_ok_usize [OF assms(3)] by (simp add: saturating_add_def)
    then have "get_range buf block_start ?e = Some (take (?e - block_start) (drop block_start buf))"
      by (simp add: get_range_def)
    with True Outer show ?thesis by (blast intro: log_step.enter)
  next
    case False
    with Outer show ?thesis by (blast intro: log_step.finish)
  qed
next
  case (Inner block_end block pos st)
  with assms read_frame_returns obtain f where f: "read_frame E block pos = Ok f" by force
  show ?thesis
  proof (cases f)
    case None
    with f Inner show ?thesis by (blast intro: log_step.leave)
  next
    case (Some x)
    obtain t d ok e where "x = (t, d, ok, e)" by (cases x)
    with f Some Inner reassemble_returns show ?thesis by (blast intro: log_step.record_read)
  qed
qed simp

text \<open>The bytes to come, weighted so that every step takes some.\<close>

fun rank :: "bytes \<Rightarrow> log_conf \<Rightarrow> nat" where
  "rank buf (Outer block_start st) = 3 * (length buf - block_start) + 1"
| "rank buf (Inner block_end block pos st) = 3 * (length buf - (block_end - length block)) - pos"
| "rank buf (Done st) = 0"

lemma rank_step:
  assumes "log_step E origin buf c c'" "conf_ok origin buf c" "buffer_ok E buf"
  shows "rank buf c' < rank buf c"
  using assms(1,2)
proof cases
  case (enter block_start block_end block st)
  then have "length block = block_end - block_start" "block_start < block_end" "block_end \<le> length buf"
    using buffer_ok_usize [OF assms(3)]
    by (auto simp: get_range_eq_Some saturating_add_def BLOCK_SIZE_def min_def split: if_splits)
  with enter show ?thesis by simp
next
  case (leave block pos block_end st)
  then have "0 < length block" "pos \<le> length block" "length block \<le> block_end" "block_end \<le> length buf"
    using assms(2) by auto
  then have "3 * (length buf - block_end) + 1 < 3 * (length buf - (block_end - length block)) - pos"
    by linarith
  with leave show ?thesis by simp
next
  case (record_read block pos t d ok data_end st st' block_end)
  then have "pos < data_end" "data_end \<le> length block" "length block \<le> block_end" "block_end \<le> length buf"
    using assms(2) read_frame_Some [OF record_read(3)] by (auto simp: HEADER_SIZE_def)
  then have "3 * (length buf - (block_end - length block)) - data_end
      < 3 * (length buf - (block_end - length block)) - pos"
    by linarith
  with record_read show ?thesis by simp
qed auto

lemma reaches_done:
  assumes "conf_ok origin buf c" "platform E" "varint_progress E" "buffer_ok E buf"
  shows "\<exists>n st. n \<le> rank buf c \<and> (log_step E origin buf ^^ n) c (Done st)"
  using assms(1)
proof (induction "rank buf c" arbitrary: c rule: less_induct)
  case less
  from log_step_progress [OF less.prems assms(2,4)] show ?case
  proof
    assume "\<exists>st. c = Done st"
    then show ?thesis by (auto intro: exI [of _ 0])
  next
    assume "\<exists>c'. log_step E origin buf c c'"
    then obtain c' where c': "log_step E origin buf c c'" by blast
    note lt = rank_step [OF c' less.prems assms(4)]
    from less.hyps [OF lt conf_ok_step [OF c' less.prems assms(2-4)]] obtain n st where
      "n \<le> rank buf c'" "(log_step E origin buf ^^ n) c' (Done st)" by blast
    with c' lt have "Suc n \<le> rank buf c" "(log_step E origin buf ^^ Suc n) c (Done st)"
      by (auto simp del: relpowp.simps intro: relpowp_Suc_I2)
    then show ?thesis by blast
  qed
qed

lemma rank_bound: "conf_ok origin buf c \<Longrightarrow> rank buf c \<le> 3 * length buf + 1"
  by (cases c) auto

section \<open>Runs and the recursive definitions\<close>

lemma block_loop_steps:
  "block_loop E origin block pos st = Ok st' \<Longrightarrow>
   (log_step E origin buf)\<^sup>*\<^sup>* (Inner block_end block pos st) (Outer block_end st')"
proof (induction "length block - pos" arbitrary: pos st rule: less_induct)
  case less
  from less.prems obtain f where f: "read_frame E block pos = Ok f"
    by (subst (asm) block_loop_frame) (auto simp: bind_eq_Ok)
  show ?case
  proof (cases f)
    case None
    with f less.prems have "st' = st" by (subst (asm) block_loop_frame) simp
    with f None show ?thesis by (auto intro: log_step.leave)
  next
    case (Some x)
    obtain t d ok e where x: "x = (t, d, ok, e)" by (cases x)
    with f Some less.prems obtain st1 where
      r: "reassemble E origin t d ok st = Ok st1" "block_loop E origin block e st1 = Ok st'"
      by (subst (asm) block_loop_frame) (auto simp: bind_eq_Ok)
    have "length block - e < length block - pos"
      using read_frame_Some [of E block pos t d ok e] f Some x unfolding HEADER_SIZE_def by auto
    from less.hyps [OF this r(2)] r(1) f Some x show ?thesis
      by (auto intro: converse_rtranclp_into_rtranclp log_step.record_read)
  qed
qed

lemma log_loop_steps:
  "log_loop E origin fuel buf block_start st = Ok st' \<Longrightarrow>
   (log_step E origin buf)\<^sup>*\<^sup>* (Outer block_start st) (Done st')"
proof (induction fuel arbitrary: block_start st)
  case 0
  then show ?case by simp
next
  case (Suc fuel)
  show ?case
  proof (cases "block_start < length buf")
    case False
    with Suc.prems show ?thesis by (auto intro: log_step.finish)
  next
    case True
    let ?e = "min (saturating_add E block_start BLOCK_SIZE) (length buf)"
    from True Suc.prems obtain block st1 where s:
      "slice buf block_start ?e = (Ok block :: (error, bytes) outcome)"
      "block_loop E origin block 0 st = Ok st1" "log_loop E origin fuel buf ?e st1 = Ok st'"
      by (auto simp: bind_eq_Ok Let_def)
    from s(1) have "get_range buf block_start ?e = Some block"
      by (auto simp: slice_def split: option.splits)
    with True have "log_step E origin buf (Outer block_start st) (Inner ?e block 0 st)"
      by (blast intro: log_step.enter)
    from converse_rtranclp_into_rtranclp [OF this block_loop_steps [OF s(2)]] Suc.IH [OF s(3)]
    show ?thesis by (rule rtranclp_trans)
  qed
qed

lemma done_unique:
  assumes "(log_step E origin buf)\<^sup>*\<^sup>* c (Done st)" "(log_step E origin buf)\<^sup>*\<^sup>* c (Done st')"
  shows "st = st'"
  using assms
proof (induction rule: converse_rtranclp_induct)
  case base
  then show ?case by (auto elim: converse_rtranclpE DoneE)
next
  case (step c c1)
  from step.prems obtain c2 where "log_step E origin buf c c2" "(log_step E origin buf)\<^sup>*\<^sup>* c2 (Done st')"
    using step.hyps(1) by (cases rule: converse_rtranclpE) (auto elim: DoneE)
  with step log_step_deterministic show ?case by blast
qed

lemma runs_parse_log:
  assumes "platform E" "buffer_ok E buf"
  shows "(\<exists>st. (log_step E origin buf)\<^sup>*\<^sup>* (Outer 0 initial_state) (Done st) \<and> records st = rs) \<longleftrightarrow>
    parse_log E buf origin = Ok rs"
proof -
  obtain rs' where rs': "parse_log E buf origin = Ok rs'" using parse_log_eq [OF assms] by blast
  then obtain st where st: "log_loop E origin (Suc (length buf)) buf 0 initial_state = Ok st" "records st = rs'"
    by (auto simp: parse_log_def initial_state_def bind_eq_Ok)
  note run = log_loop_steps [OF st(1)]
  show ?thesis
  proof
    assume "\<exists>st. (log_step E origin buf)\<^sup>*\<^sup>* (Outer 0 initial_state) (Done st) \<and> records st = rs"
    then obtain st' where st': "(log_step E origin buf)\<^sup>*\<^sup>* (Outer 0 initial_state) (Done st')" "records st' = rs"
      by blast
    from done_unique [OF run st'(1)] st(2) st'(2) rs' show "parse_log E buf origin = Ok rs" by simp
  next
    assume "parse_log E buf origin = Ok rs"
    with rs' st(2) run
    show "\<exists>st. (log_step E origin buf)\<^sup>*\<^sup>* (Outer 0 initial_state) (Done st) \<and> records st = rs"
      by (intro exI [of _ st]) simp
  qed
qed

end
