(* ===== verification/Log_Theorems.thy ===== *)
theory Log_Theorems
  imports Wal_Commit Wal_Machine Reference_Env
begin

text \<open>
  The theorems on the write-ahead log reader, each applied to a concrete log: a batch that
  puts a key, then a batch that deletes it and puts another one, sequence numbers from 5 on.
\<close>

definition sample_batches :: "(u64 \<times> op list) list" where
  "sample_batches = [(5, [Put [0x6B] [0x76]]), (6, [Delete [0x6B], Put [0x61] []])]"

definition sample_log :: bytes where
  "sample_log = write_log ref_env 0 (encoded sample_batches) @ replicate 3 0"

definition sample_path :: path where
  "sample_path = Path [0x64, 0x2F, 0x30, 0x2E, 0x6C, 0x6F, 0x67]"

lemma leb128_small: "unat v < 128 \<Longrightarrow> leb128 v = [byte_of (unat v)]"
  by (simp add: leb128_def leb128_nat.simps)

lemma leb128_as_u64: "n < 128 \<Longrightarrow> leb128 (as_u64 n) = [byte_of n]"
  by (simp add: leb128_small as_u64_def unat_of_nat)

lemma length_encode_samples: "map length (encoded sample_batches) = [17, 19]"
  by (simp add: sample_batches_def encoded_def encode_batch_def length_prefixed_def leb128_as_u64
      OP_VALUE_def OP_DELETE_def)

lemma write_record_fits:
  "off + HEADER_SIZE + length d \<le> BLOCK_SIZE \<Longrightarrow>
   write_record E off begins d = phys_bytes E (fragment_type begins True) d"
  by (subst write_record.simps) (auto simp: Let_def)

lemma sample_log_ok: "buffer_ok ref_env sample_log"
proof -
  obtain a b where ab: "encoded sample_batches = [a, b]" "length a = 17" "length b = 19"
    using length_encode_samples by (auto simp: map_eq_Cons_conv)
  have "length sample_log = 53"
    by (simp add: sample_log_def ab write_record_fits BLOCK_SIZE_def HEADER_SIZE_def)
  then show ?thesis by (simp add: ref_buffer)
qed

section \<open>The log reader\<close>

lemma parse_log_records:
  assumes "platform E" "buffer_ok E buf" "parse_log E buf origin = Ok rs"
  shows "rs = concat (map (batch_records E origin) (log_batches E buf))"
  using parse_log_eq [OF assms(1,2), of origin] assms(3) by simp

lemma buffer_ok_take: "buffer_ok E buf \<Longrightarrow> buffer_ok E (take n buf)"
  by (simp add: buffer_ok_def)

lemma sample_counts: "counts_ok sample_batches"
  by (simp add: counts_ok_def sample_batches_def)

definition sample_records :: "record_t list" where
  "sample_records =
     [\<lparr>rec_key = [0x6B], rec_value = [0x76], rec_seq = 5, rec_deleted = False, rec_origin = sample_path\<rparr>,
      \<lparr>rec_key = [0x6B], rec_value = [], rec_seq = 6, rec_deleted = True, rec_origin = sample_path\<rparr>,
      \<lparr>rec_key = [0x61], rec_value = [], rec_seq = 7, rec_deleted = False, rec_origin = sample_path\<rparr>]"

lemma sample_op_records:
  "records_of sample_path sample_batches = sample_records"
  by (simp add: records_of_def sample_batches_def sample_records_def op_records_def saturating_add_u64_def as_u64_def)

lemma sample_parse: "parse_log ref_env sample_log sample_path = Ok sample_records"
  using parse_log_written [OF ref_platform ref_varint(2) sample_log_ok sample_log_def sample_counts]
  by (simp add: sample_op_records)

text \<open>
  C1: on every buffer the log parser returns, without a panic, and what it returns is the
  composition of three independent stages: framing into physical records, reassembly of
  fragments into batches, decoding of each batch.
\<close>

theorem parse_log_refines:
  assumes "platform E" "buffer_ok E buf"
  shows "parse_log E buf origin =
    Ok (concat (map (batch_records E origin) (assemble Idle (phys_records E buf))))"
  using parse_log_eq [OF assms] by (simp add: log_batches_def)

theorem parse_log_refines_witness:
  "parse_log ref_env sample_log sample_path =
    Ok (concat (map (batch_records ref_env sample_path) (assemble Idle (phys_records ref_env sample_log))))"
  by (rule parse_log_refines [OF ref_platform sample_log_ok])

text \<open>
  C2: the parser inverts the log format. A log written from any batches, split into fragments
  over any number of blocks and followed by any preallocated zero tail, reads back as the records
  of those batches, in order, with their keys, values, sequence numbers and tombstones.
\<close>

theorem log_roundtrip:
  assumes "platform E" "varint_leb128 E" "buffer_ok E buf"
    and "buf = write_log E 0 (encoded bs) @ replicate k 0"
    and "counts_ok bs"
  shows "parse_log E buf origin = Ok (records_of origin bs)"
  using assms by (rule parse_log_written)

theorem log_roundtrip_witness: "parse_log ref_env sample_log sample_path = Ok sample_records"
  using log_roundtrip [OF ref_platform ref_varint(2) sample_log_ok sample_log_def sample_counts]
  by (simp add: sample_op_records)

text \<open>
  C3: damage never fabricates. Every record the parser returns was decoded from the data of a
  contiguous run of physical records (one FULL, or FIRST, MIDDLE, LAST) each of which passed
  its checksum.
\<close>

theorem log_sound:
  assumes "platform E" "buffer_ok E buf" "parse_log E buf origin = Ok rs" "r \<in> set rs"
  shows "\<exists>before run after b. phys_records E buf = before @ run @ after \<and> intact_run run b \<and>
    r \<in> set (batch_records E origin b)"
proof -
  obtain b where "b \<in> set (log_batches E buf)" "r \<in> set (batch_records E origin b)"
    using assms(4) by (auto simp: parse_log_records [OF assms(1-3)])
  then show ?thesis using assemble_sound [of b "phys_records E buf"] unfolding log_batches_def by blast
qed

theorem log_sound_witness:
  "\<exists>before run after b. phys_records ref_env sample_log = before @ run @ after \<and> intact_run run b \<and>
     hd sample_records \<in> set (batch_records ref_env sample_path b)"
  by (rule log_sound [OF ref_platform sample_log_ok sample_parse]) (simp add: sample_records_def)

text \<open>
  C4: nothing intact is lost. Whatever precedes and follows it in the file, an intact run of
  physical records contributes exactly the records of its batch, in place.
\<close>

theorem log_complete:
  assumes "platform E" "buffer_ok E buf" "parse_log E buf origin = Ok rs"
    and "phys_records E buf = before @ run @ after" "intact_run run b"
  shows "rs = concat (map (batch_records E origin) (assemble Idle before)) @ batch_records E origin b
    @ concat (map (batch_records E origin) (assemble Idle after))"
  using assemble_run [OF assms(5), of Idle before after]
  by (simp add: parse_log_records [OF assms(1-3)] log_batches_def assms(4))

text \<open>A log of one record, for the applications to concrete physical records.\<close>

definition one_record :: bytes where
  "one_record = phys_bytes ref_env REC_FULL [0x01, 0x02]"

lemma one_record_length: "length one_record = 9"
  by (simp add: one_record_def HEADER_SIZE_def)

lemma one_record_phys: "phys_records ref_env one_record = [Phys REC_FULL [0x01, 0x02] True]"
proof -
  have "one_record \<noteq> []" using one_record_length by auto
  moreover have "take BLOCK_SIZE one_record = one_record" "drop BLOCK_SIZE one_record = []"
    using one_record_length by (simp_all add: BLOCK_SIZE_def)
  ultimately show ?thesis
    using phys_records_step [of one_record ref_env]
      scan_block_phys [of REC_FULL "[0x01, 0x02]" ref_env "[]"]
    by (simp add: one_record_def REC_FULL_def scan_block_short HEADER_SIZE_def)
qed

lemma one_record_run: "intact_run [Phys REC_FULL [0x01, 0x02] True] [0x01, 0x02]"
  using intact_run.full [of "Phys REC_FULL [0x01, 0x02] True"] by simp

lemma one_record_ok: "buffer_ok ref_env one_record"
  by (simp add: ref_buffer one_record_length)

theorem log_complete_witness:
  "\<exists>rs. parse_log ref_env one_record sample_path = Ok rs \<and>
     rs = [] @ batch_records ref_env sample_path [0x01, 0x02] @ []"
proof -
  obtain rs where rs: "parse_log ref_env one_record sample_path = Ok rs"
    using parse_log_eq [OF ref_platform one_record_ok] by blast
  have "phys_records ref_env one_record = [] @ [Phys REC_FULL [0x01, 0x02] True] @ []"
    by (simp add: one_record_phys)
  from log_complete [OF ref_platform one_record_ok rs this one_record_run] rs show ?thesis by simp
qed

section \<open>Truncation and resynchronisation\<close>

text \<open>
  C14: a log cut off anywhere (a crash, a partial carve) yields a prefix of the records of the
  whole file: nothing wrong, nothing out of order.
\<close>

theorem log_truncated:
  assumes "platform E" "buffer_ok E buf"
    and "parse_log E buf origin = Ok rs" "parse_log E (take n buf) origin = Ok rs'"
  shows "prefix rs' rs"
  using parse_log_records [OF assms(1,2,3)]
    parse_log_records [OF assms(1) buffer_ok_take [OF assms(2)] assms(4)]
    prefix_concat_map [OF log_batches_take]
  by simp

theorem log_truncated_witness:
  "\<exists>rs'. parse_log ref_env (take 40 sample_log) sample_path = Ok rs' \<and> prefix rs' sample_records"
proof -
  obtain rs' where rs: "parse_log ref_env (take 40 sample_log) sample_path = Ok rs'"
    using parse_log_eq [OF ref_platform buffer_ok_take [OF sample_log_ok]] by blast
  from log_truncated [OF ref_platform sample_log_ok sample_parse this] rs show ?thesis by blast
qed

text \<open>
  C15: damage stops at a block boundary. Whatever fills the first \<open>k\<close> blocks of a file, the
  records of the rest are those the rest has on its own, provided its first physical record
  opens a logical record.
\<close>

theorem log_resync:
  assumes "platform E" "buffer_ok E (damaged @ buf)" "length damaged = k * BLOCK_SIZE"
    and "opens (phys_records E buf)" "parse_log E buf origin = Ok rs"
  shows "\<exists>found. parse_log E (damaged @ buf) origin = Ok (found @ rs)"
proof -
  have "buffer_ok E buf" using assms(2) by (simp add: buffer_ok_def)
  from parse_log_records [OF assms(1) this assms(5)] show ?thesis
    by (simp add: parse_log_eq [OF assms(1,2)] log_batches_blocks [OF assms(3,4)])
qed

theorem log_resync_witness:
  "\<exists>rs found. parse_log ref_env one_record sample_path = Ok rs \<and>
     parse_log ref_env (replicate 32768 0xFF @ one_record) sample_path = Ok (found @ rs)"
proof -
  obtain rs where rs: "parse_log ref_env one_record sample_path = Ok rs"
    using parse_log_eq [OF ref_platform one_record_ok] by blast
  have "buffer_ok ref_env (replicate 32768 0xFF @ one_record)"
    by (simp add: ref_buffer one_record_length)
  moreover have "length (replicate 32768 0xFF) = 1 * BLOCK_SIZE" by (simp add: BLOCK_SIZE_def)
  moreover have "opens (phys_records ref_env one_record)" by (simp add: one_record_phys)
  ultimately show ?thesis using log_resync [OF ref_platform _ _ _ rs] rs by blast
qed

section \<open>Write batches\<close>

text \<open>
  The batch decoder inverts the batch format: the operations come back in order, operation
  \<open>i\<close> with sequence number \<open>seq + i\<close>, after whatever had been collected before.
\<close>

theorem batch_roundtrip:
  assumes "platform E" "varint_leb128 E" "length ops < 2 ^ 32"
    and "length (encode_batch seq ops) \<le> usize_max E"
  shows "parse_write_batch E (encode_batch seq ops) origin out = Ok (out @ op_records origin seq ops)"
  by (simp add: parse_write_batch_eq batch_records_encoded [OF assms])

lemma sample_batch_length: "length (encode_batch 6 [Delete [0x6B], Put [0x61] []]) = 19"
  using length_encode_samples by (simp add: sample_batches_def encoded_def)

theorem batch_roundtrip_witness:
  "parse_write_batch ref_env (encode_batch 6 [Delete [0x6B], Put [0x61] []]) sample_path [] =
     Ok (tl sample_records)"
  using batch_roundtrip [OF ref_platform ref_varint(2), of "[Delete [0x6B], Put [0x61] []]" 6 sample_path "[]"]
    sample_batch_length
  by (simp add: sample_records_def op_records_def saturating_add_u64_def as_u64_def)

text \<open>
  A batch cut short yields a prefix of its records.
\<close>

theorem batch_truncated:
  assumes "platform E" "varint_prefix_stable E" "length b \<le> usize_max E"
    and "parse_write_batch E b origin [] = Ok rs" "parse_write_batch E (take n b) origin [] = Ok rs'"
  shows "prefix rs' rs"
  using batch_records_cut [OF assms(1-3), of origin n] assms(4,5) by (simp add: parse_write_batch_eq)

theorem batch_truncated_witness:
  "\<exists>rs'. parse_write_batch ref_env (take 15 (encode_batch 6 [Delete [0x6B], Put [0x61] []])) sample_path []
     = Ok rs' \<and> prefix rs' (tl sample_records)"
proof -
  have "parse_write_batch ref_env (encode_batch 6 [Delete [0x6B], Put [0x61] []]) sample_path [] =
      Ok (tl sample_records)"
    by (simp add: parse_write_batch_eq batch_records_encoded ref_facts sample_batch_length
        sample_records_def op_records_def saturating_add_u64_def as_u64_def)
  moreover have "length (encode_batch 6 [Delete [0x6B], Put [0x61] []]) \<le> usize_max ref_env"
    by (simp add: sample_batch_length)
  ultimately show ?thesis
    using batch_truncated [OF ref_platform ref_varint(3)] by (simp add: parse_write_batch_eq)
qed

text \<open>
  C34: on any bytes, the decoder returns at most as many records as the header counts; record
  \<open>j\<close> has the header's sequence number plus \<open>j\<close>, saturating at the top of the range, carries the
  origin, and a tombstone has no value.
\<close>

theorem batch_fields:
  assumes "BATCH_HEADER_LEN \<le> length b" "length b \<le> usize_max E"
    and "parse_write_batch E b origin [] = Ok rs"
    and "base = u64_from_le_bytes (take 8 b)" "cnt = u32_from_le_bytes (take 4 (drop 8 b))"
  shows "length rs \<le> unat cnt \<and>
    (\<forall>j < length rs. rec_seq (rs ! j) = saturating_add_u64 base (as_u64 j) \<and>
       rec_origin (rs ! j) = origin \<and> (rec_deleted (rs ! j) \<longrightarrow> rec_value (rs ! j) = []))"
proof -
  have rs: "rs = ops_list E origin base (unat cnt) 0 (advance 12 (cursor_new b))"
    using assms(3) batch_records_header [OF assms(1,2)] by (simp add: parse_write_batch_eq assms(4,5))
  show ?thesis
    using length_ops_list [of E origin base "unat cnt"] ops_list_fields [of _ E origin base "unat cnt" 0]
    by (simp add: rs Let_def)
qed

theorem batch_fields_witness:
  "\<exists>rs. parse_write_batch ref_env (to_le 8 (unat (- 1 :: u64)) @ to_le 4 2 @ [0, 1, 0x6B, 0, 0]) sample_path [] = Ok rs \<and>
     length rs \<le> 2 \<and> (\<forall>j < length rs. rec_seq (rs ! j) = saturating_add_u64 (- 1) (as_u64 j))"
proof -
  define b :: bytes where "b = to_le 8 (unat (- 1 :: u64)) @ to_le 4 2 @ [0, 1, 0x6B, 0, 0]"
  obtain rs where rs: "parse_write_batch ref_env b sample_path [] = Ok rs"
    by (simp add: parse_write_batch_eq)
  have "unat (u32_from_le_bytes (take 4 (drop 8 b))) = 2"
    using u32_from_to_le_nat [of 2] by (simp add: b_def)
  moreover have "u64_from_le_bytes (take 8 b) = - 1"
    using u64_from_to_le [of "- 1"] by (simp only: b_def take_append_exact length_to_le)
  moreover have "BATCH_HEADER_LEN \<le> length b" "length b \<le> usize_max ref_env"
    by (simp_all add: b_def BATCH_HEADER_LEN_def)
  ultimately show ?thesis using batch_fields [OF _ _ rs refl refl] rs by (auto simp flip: b_def)
qed

section \<open>Bounds\<close>

text \<open>
  C33: no amplification. The keys and values of all records of a log, and two bytes for each
  record, fit in the file: however damaged or hostile, a log of \<open>n\<close> bytes cannot make the
  parser return more than \<open>n div 2\<close> records.
\<close>

theorem log_output_bound:
  assumes "platform E" "buffer_ok E buf" "varint_progress E" "parse_log E buf origin = Ok rs"
  shows "(\<Sum>r \<leftarrow> rs. 2 + length (rec_key r) + length (rec_value r)) \<le> length buf"
proof -
  have cost: "sum_list (map record_cost (batch_records E origin b)) \<le> length b"
    if "b \<in> set (log_batches E buf)" for b
    using that log_batch_length buffer_ok_usize [OF assms(2)] order_trans
    by (blast intro: batch_records_cost [OF assms(3)])
  have "sum_list (map record_cost (concat (map (batch_records E origin) bs))) \<le> sum_list (map length bs)"
    if "\<forall>b \<in> set bs. sum_list (map record_cost (batch_records E origin b)) \<le> length b" for bs
    using that by (induction bs) auto
  with cost have "sum_list (map record_cost rs) \<le> sum_list (map length (log_batches E buf))"
    using parse_log_records [OF assms(1,2,4)] by blast
  also have "\<dots> \<le> length buf" by (rule log_batches_size)
  finally show ?thesis by (simp add: record_cost_def [abs_def])
qed

theorem log_output_bound_witness:
  "(\<Sum>r \<leftarrow> sample_records. 2 + length (rec_key r) + length (rec_value r)) \<le> length sample_log"
  by (rule log_output_bound [OF ref_platform sample_log_ok ref_varint(1) sample_parse])

section \<open>The reader as a transition system\<close>

text \<open>
  C12: the invariant of every reachable configuration. Positions stay inside the buffer and the
  block, a fragment is held only inside a record, every record has the origin of the file, and
  the fragment and the records held so far are no larger than the bytes consumed so far: the
  working memory is bounded by the input at every moment, not only at the end.
\<close>

theorem log_machine_invariant:
  assumes "platform E" "varint_progress E" "buffer_ok E buf"
    and "(log_step E origin buf)\<^sup>*\<^sup>* (Outer 0 initial_state) c"
  shows "conf_ok origin buf c"
  using reachable_ok [OF assms(4,1,2,3)] .

theorem log_machine_invariant_witness:
  "\<exists>st. records st = sample_records \<and> conf_ok sample_path sample_log (Done st)"
proof -
  obtain st where "(log_step ref_env sample_path sample_log)\<^sup>*\<^sup>* (Outer 0 initial_state) (Done st)"
    "records st = sample_records"
    using runs_parse_log [OF ref_platform sample_log_ok] sample_parse by blast
  with log_machine_invariant [OF ref_platform ref_varint(1) sample_log_ok] show ?thesis by blast
qed

text \<open>
  C13: the reader never gets stuck and always finishes. From every reachable configuration of
  any buffer, however damaged, the end is reached, in at most three steps a byte and one.
\<close>

theorem log_machine_live:
  assumes "platform E" "varint_progress E" "buffer_ok E buf"
    and "(log_step E origin buf)\<^sup>*\<^sup>* (Outer 0 initial_state) c"
  shows "\<exists>n st. n \<le> 3 * length buf + 1 \<and> (log_step E origin buf ^^ n) c (Done st)"
proof -
  have ok: "conf_ok origin buf c" by (rule reachable_ok [OF assms(4,1,2,3)])
  from reaches_done [OF ok assms(1-3)] rank_bound [OF ok] show ?thesis by (meson le_trans)
qed

theorem log_machine_live_witness:
  "\<exists>n st. n \<le> 3 * length sample_log + 1 \<and>
     (log_step ref_env sample_path sample_log ^^ n) (Outer 0 initial_state) (Done st)"
  by (rule log_machine_live [OF ref_platform ref_varint(1) sample_log_ok]) simp

text \<open>
  C11: reading a log while it is written. A snapshot taken at any time after some batches were
  committed, cut off at any byte past them, yields all records of the committed batches, and
  beyond them only records of batches appended later, in order.
\<close>

theorem snapshot_consistent:
  assumes "platform E" "varint_leb128 E"
    and "appends E ([], []) (bs, file)" "appends E (bs, file) (bs', file')"
    and "buffer_ok E file'" "counts_ok bs'"
    and "length file \<le> n" "parse_log E (take n file') origin = Ok rs"
  shows "prefix (records_of origin bs) rs \<and> prefix rs (records_of origin bs')"
  using assms by (rule snapshot_sandwich)

definition first_file :: bytes where
  "first_file = write_record ref_env 0 True (encode_batch 5 [Put [0x6B] [0x76]])"

definition second_file :: bytes where
  "second_file = first_file @ write_record ref_env (length first_file mod BLOCK_SIZE) True
     (encode_batch 6 [Delete [0x6B], Put [0x61] []])"

lemma sample_files: "length first_file = 24" "length second_file = 50"
  using length_encode_samples sample_batch_length
  by (simp_all add: first_file_def second_file_def write_record_fits BLOCK_SIZE_def HEADER_SIZE_def
      sample_batches_def encoded_def)

lemma sample_appends: "append_batch ref_env ([], []) (take 1 sample_batches, first_file)"
  "append_batch ref_env (take 1 sample_batches, first_file) (sample_batches, second_file)"
  using append_batch.intros [of ref_env "[]" "[]" 5] append_batch.intros [of ref_env "take 1 sample_batches" first_file 6]
  by (simp_all add: sample_batches_def first_file_def second_file_def)

theorem snapshot_consistent_witness:
  "\<exists>rs. parse_log ref_env (take 40 second_file) sample_path = Ok rs \<and>
     prefix (records_of sample_path (take 1 sample_batches)) rs \<and> prefix rs sample_records"
proof -
  have ok: "buffer_ok ref_env second_file" by (simp add: ref_buffer sample_files)
  obtain rs where rs: "parse_log ref_env (take 40 second_file) sample_path = Ok rs"
    using parse_log_eq [OF ref_platform buffer_ok_take [OF ok]] by blast
  have "length first_file \<le> 40" by (simp add: sample_files)
  from snapshot_consistent [OF ref_platform ref_varint(2) r_into_rtranclp [of "append_batch ref_env", OF sample_appends(1)]
      r_into_rtranclp [of "append_batch ref_env", OF sample_appends(2)] ok sample_counts this rs] rs
  show ?thesis by (auto simp: sample_op_records)
qed

end
