(* ===== verification/Table_Theorems.thy ===== *)
theory Table_Theorems
  imports Table_Format Reference_Env Log_Theorems
begin

text \<open>
  The theorems on the SSTable reader, each applied to a concrete table, and the converse
  facts they need: what a block that was read, and a record that was returned, say about the file.
\<close>

section \<open>What a read block says about the file\<close>

lemma u32_bytes:
  assumes "length c = 4" "w = u32_from_le_bytes c"
  shows "to_le 4 (unat w) = c"
proof -
  have "from_le c < 2 ^ 32" using from_le_less [of c] assms(1) by simp
  then have "unat w = from_le c" by (simp add: assms(2) u32_from_le_bytes_def unat_of_nat)
  then show ?thesis using to_le_from_le [OF assms(1)] by simp
qed

lemma region_split:
  assumes "get_range buf off (off + sz + 5) = Some region"
  obtains p t c where "region = p @ t # c" "length p = sz" "length c = 4"
    "buf = take off buf @ region @ drop (off + sz + 5) buf" "off \<le> length buf"
proof -
  have len: "length region = sz + 5" and ob: "off + sz + 5 \<le> length buf"
    and r: "region = take (sz + 5) (drop off buf)"
    using assms by (auto simp: get_range_eq_Some)
  have "region = take sz region @ region ! sz # drop (Suc sz) region"
    using len by (intro id_take_nth_drop) simp
  moreover have "buf = take off buf @ region @ drop (off + sz + 5) buf"
    unfolding r by (metis append_take_drop_id drop_drop add.commute group_cancel.add1)
  ultimately show thesis
    by (intro that [of "take sz region" "region ! sz" "drop (Suc sz) region"]) (use len ob in simp_all)
qed

lemma read_block_sound:
  assumes "read_block E buf h = Ok d"
  obtains pre p t post where "buf = pre @ stored_block E t p @ post"
    "length pre = unat (bh_offset h)" "length p = unat (bh_size h)"
    "decode_block E t p (unat (bh_offset h)) (unat (bh_size h)) = Ok d"
proof -
  let ?off = "unat (bh_offset h)" and ?sz = "unat (bh_size h)"
  obtain region where region: "get_range buf ?off (?off + ?sz + 5) = Some region"
    and rest: "bind (slice region 0 ?sz) (\<lambda>dat. bind (idx region [?sz]) (\<lambda>type_byte.
       bind (idx region [?sz + 1, ?sz + 2, ?sz + 3, ?sz + 4]) (\<lambda>crc_bytes.
       bind (slice region 0 (?sz + 1)) (\<lambda>covered.
       if sst_mask_crc (crc32c E covered) \<noteq> u32_from_le_bytes crc_bytes
       then Err (BadBlockCrc (u32_from_le_bytes crc_bytes) (sst_mask_crc (crc32c E covered)) ?off)
       else decode_block E (hd type_byte) dat ?off ?sz)))) = Ok d"
    using assms
    by (auto simp: read_block_def bind_eq_Ok usize_try_from_def checked_add_def BLOCK_TRAILER_LEN_def
        Let_def split: if_splits option.splits)
  obtain p t c where r: "region = p @ t # c" "length p = ?sz" "length c = 4"
    "buf = take ?off buf @ region @ drop (?off + ?sz + 5) buf" "?off \<le> length buf"
    by (rule region_split [OF region])
  have sz: "?sz = length p" by (simp add: r(2))
  from rest have dec: "sst_mask_crc (crc32c E (p @ [t])) = u32_from_le_bytes c"
    "decode_block E t p ?off ?sz = Ok d"
    unfolding r(1) sz by (simp_all add: slice_Ok idx_trailer [OF r(3), simplified] split: if_splits)
  have "to_le 4 (unat (sst_mask_crc (crc32c E (p @ [t])))) = c"
    unfolding dec(1) by (rule u32_bytes [OF r(3) refl])
  then have "region = stored_block E t p" by (simp add: stored_block_def r(1))
  with that dec(2) r show thesis by (metis length_take min.absorb2)
qed

lemma handle_at_eq:
  "length before = unat (bh_offset h) \<Longrightarrow> length p = unat (bh_size h) \<Longrightarrow> h = handle_at (length before) p"
  by (cases h) (simp only: handle_at_def as_u64_def word_of_nat_eq_iff block_handle.simps, simp)

lemma read_block_exact:
  assumes "platform E" "length buf \<le> usize_max E"
  shows "read_block E buf h = Ok d \<longleftrightarrow>
    (\<exists>before p t after. buf = before @ stored_block E t p @ after \<and>
       length before = unat (bh_offset h) \<and> length p = unat (bh_size h) \<and>
       decode_block E t p (unat (bh_offset h)) (unat (bh_size h)) = Ok d)"
proof
  assume "read_block E buf h = Ok d"
  then show "\<exists>before p t after. buf = before @ stored_block E t p @ after \<and>
       length before = unat (bh_offset h) \<and> length p = unat (bh_size h) \<and>
       decode_block E t p (unat (bh_offset h)) (unat (bh_size h)) = Ok d"
    by (rule read_block_sound) blast
next
  assume "\<exists>before p t after. buf = before @ stored_block E t p @ after \<and>
       length before = unat (bh_offset h) \<and> length p = unat (bh_size h) \<and>
       decode_block E t p (unat (bh_offset h)) (unat (bh_size h)) = Ok d"
  then obtain before p t after where b: "buf = before @ stored_block E t p @ after"
    "length before = unat (bh_offset h)" "length p = unat (bh_size h)"
    "decode_block E t p (unat (bh_offset h)) (unat (bh_size h)) = Ok d" by blast
  have h: "h = handle_at (length before) p" by (rule handle_at_eq [OF b(2,3)])
  have "read_block E buf (handle_at (length before) p) = decode_block E t p (length before) (length p)"
    by (rule read_block_at [OF assms(1) b(1) assms(2)])
  then have "read_block E buf h = decode_block E t p (length before) (length p)"
    unfolding h [symmetric] .
  then show "read_block E buf h = Ok d" unfolding b(2-4) .
qed

lemma table_loop_sound:
  "table_loop E buf origin es acc = Ok rs \<Longrightarrow> r \<in> set rs \<Longrightarrow> r \<notin> set acc \<Longrightarrow>
   \<exists>h d entries e. read_block E buf h = Ok d \<and> parse_block_entries E d = Ok entries \<and>
     e \<in> set entries \<and> entry_record origin e = Some r"
proof (induction es arbitrary: acc)
  case Nil
  then show ?case by simp
next
  case (Cons x es)
  obtain k hb where x: "x = (k, hb)" by (cases x)
  from Cons.prems(1) obtain h d entries where
    d: "read_block E buf h = Ok d" "parse_block_entries E d = Ok entries"
    "table_loop E buf origin es (acc @ List.map_filter (entry_record origin) entries) = Ok rs"
    by (auto simp: x bind_eq_Ok push_entries_eq split: prod.splits)
  show ?case
  proof (cases "r \<in> set (List.map_filter (entry_record origin) entries)")
    case True
    then obtain e where "e \<in> set entries" "entry_record origin e = Some r"
      by (auto simp: map_filter_def)
    with d show ?thesis by blast
  next
    case False
    then show ?thesis using Cons.IH [OF d(3) Cons.prems(2)] Cons.prems(3) by simp
  qed
qed

section \<open>A concrete table\<close>

text \<open>An entry to write: the bytes shared with the previous key, then the fields of a record.\<close>

datatype table_entry = Table_Entry (shared: nat) (te_key: bytes) (te_seq: nat) (te_type: u8) (te_value: bytes)

fun wentry_of :: "table_entry \<Rightarrow> wentry" where
  "wentry_of (Table_Entry s k seq t v) = (s, internal_key k seq t, v)"

fun te_record :: "path \<Rightarrow> table_entry \<Rightarrow> record_t" where
  "te_record origin (Table_Entry s k seq t v) =
     \<lparr>rec_key = k, rec_value = v, rec_seq = word_of_nat seq, rec_deleted = (t = 0), rec_origin = origin\<rparr>"

definition wblock_of :: "table_entry list \<times> nat list \<times> bool \<Rightarrow> wblock" where
  "wblock_of b = (case b of (es, restarts, z) \<Rightarrow>
     \<lparr>wb_entries = map wentry_of es, wb_restarts = restarts, wb_snappy = z\<rparr>)"

lemma map_filter_entries:
  "\<forall>e \<in> set es. te_seq e < 2 ^ 56 \<Longrightarrow>
   List.map_filter (entry_record origin) (map snd (map wentry_of es)) = map (te_record origin) es"
proof (induction es)
  case Nil
  show ?case by (simp add: map_filter_def)
next
  case (Cons e es)
  then show ?case by (cases e) (simp add: map_filter_simps entry_record_internal)
qed

lemma parse_table_entries:
  assumes E: "platform E" "varint_leb128 E" "snappy_inverts E compress"
    and buf: "buf = write_table E compress (map wblock_of bs) meta mh index" "buffer_ok E buf"
    and blocks: "\<forall>b \<in> set bs. wblock_ok (wblock_of b)" "\<forall>(es, _) \<in> set bs. \<forall>e \<in> set es. te_seq e < 2 ^ 56"
    and index: "wblock_ok index" "length ks = length bs"
      "wb_entries index = index_entries ks (block_handles compress 0 (map wblock_of bs))"
  shows "parse_table E buf origin = Ok (concat (map (\<lambda>(es, _). map (te_record origin) es) bs))"
proof -
  have "parse_table E buf origin = Ok (concat (map (\<lambda>b. List.map_filter (entry_record origin)
      (map snd (wb_entries b))) (map wblock_of bs)))"
    using blocks(1) index by (intro parse_table_written [OF E buf]) simp_all
  moreover have "List.map_filter (entry_record origin) (map snd (wb_entries (wblock_of b))) =
      map (te_record origin) (fst b)" if "b \<in> set bs" for b
  proof -
    obtain es restarts z where b: "b = (es, restarts, z)" by (cases b)
    with blocks(2) that have "\<forall>e \<in> set es. te_seq e < 2 ^ 56" by fastforce
    from map_filter_entries [OF this, of origin] show ?thesis by (simp add: b wblock_of_def)
  qed
  ultimately show ?thesis by (simp add: case_prod_beta cong: map_cong)
qed

text \<open>Two entries that share the first byte of their keys, the second one a tombstone, compressed.\<close>

definition sample_entries :: "table_entry list" where
  "sample_entries = [Table_Entry 0 [0x6B, 0x31] 7 1 [0x76], Table_Entry 1 [0x6B, 0x32] 9 0 []]"

definition sample_blocks :: "(table_entry list \<times> nat list \<times> bool) list" where
  "sample_blocks = [(sample_entries, [0], True)]"

definition sample_index :: wblock where
  "sample_index = \<lparr>wb_entries = index_entries [(0, [0x7A])] (block_handles (\<lambda>d. d) 0 (map wblock_of sample_blocks)),
     wb_restarts = [0], wb_snappy = False\<rparr>"

definition sample_table :: bytes where
  "sample_table = write_table ref_env (\<lambda>d. d) (map wblock_of sample_blocks) [] (handle_at 0 []) sample_index"

lemma length_encode_entries: "length (encode_entries prev es) \<le> (\<Sum>(s, k, v) \<leftarrow> es. 30 + length k + length v)"
proof (induction prev es rule: encode_entries.induct)
  case (2 prev s k v es)
  then show ?case
    using leb128_length [of "as_u64 s"] leb128_length [of "as_u64 (length k - s)"]
      leb128_length [of "as_u64 (length v)"]
    by simp
qed simp

lemma length_encode_block:
  "length (encode_block es restarts) \<le> (\<Sum>(s, k, v) \<leftarrow> es. 30 + length k + length v) + 4 * length restarts + 4"
  using length_encode_entries [of "[]" es] by (simp add: encode_block_def length_concat_le4)

lemma length_internal_key [simp]: "length (internal_key k seq t) = length k + 8"
  by (simp add: internal_key_def)

lemma sample_raw_blocks:
  "length (raw_block (wblock_of (sample_entries, [0], True))) \<le> 89"
  "length (raw_block sample_index) \<le> 59"
proof -
  show "length (raw_block (wblock_of (sample_entries, [0], True))) \<le> 89"
    using length_encode_block [of "map wentry_of sample_entries" "[0]"]
    by (simp add: raw_block_def wblock_of_def sample_entries_def)
  show "length (raw_block sample_index) \<le> 59"
    using length_encode_block [of "wb_entries sample_index" "[0]"]
      encode_handle_length [of "handle_at 0 (payload (\<lambda>d. d) (wblock_of (sample_entries, [0], True)))"]
    by (simp add: raw_block_def sample_index_def sample_blocks_def index_entries_def)
qed

lemma sample_table_ok: "buffer_ok ref_env sample_table"
proof (rule ref_buffer)
  have "length sample_table \<le> 89 + 5 + (59 + 5) + 48"
    using sample_raw_blocks
    by (simp add: sample_table_def write_table_def Let_def sample_blocks_def length_store payload_def
        FOOTER_LEN_def BLOCK_TRAILER_LEN_def sample_index_def)
  then show "length sample_table < 2 ^ 63" by simp
qed

lemma sample_blocks_ok: "\<forall>b \<in> set sample_blocks. wblock_ok (wblock_of b)"
  "\<forall>(es, _) \<in> set sample_blocks. \<forall>e \<in> set es. te_seq e < 2 ^ 56" "wblock_ok sample_index"
proof -
  show "\<forall>b \<in> set sample_blocks. wblock_ok (wblock_of b)"
    using sample_raw_blocks(1)
    by (simp add: sample_blocks_def wblock_ok_def MAX_DECOMPRESSED_BLOCK_def)
      (simp add: wblock_of_def sample_entries_def internal_key_def)
  show "\<forall>(es, _) \<in> set sample_blocks. \<forall>e \<in> set es. te_seq e < 2 ^ 56"
    by (simp add: sample_blocks_def sample_entries_def)
  show "wblock_ok sample_index"
    using encode_handle_length [of "handle_at 0 (payload (\<lambda>d. d) (wblock_of (sample_entries, [0], True)))"]
    by (simp add: wblock_ok_def sample_index_def sample_blocks_def index_entries_def)
qed

definition sample_table_records :: "record_t list" where
  "sample_table_records = map (te_record sample_path) sample_entries"

lemmas sample_table_facts = ref_platform ref_varint(2) ref_snappy(2) sample_table_def sample_table_ok
  sample_blocks_ok

lemma sample_parse_table: "parse_table ref_env sample_table sample_path = Ok sample_table_records"
  using parse_table_entries [OF sample_table_facts, of "[(0, [0x7A])]" sample_path]
  by (simp add: sample_blocks_def sample_index_def sample_table_records_def)

section \<open>The theorems\<close>

text \<open>
  C5: the table parser inverts the table format. For any data blocks (any prefix sharing the
  format admits, any restart array, compressed or not, anything between the data blocks and the
  index) it returns the records of the entries, in order, with their user keys, values, 56-bit
  sequence numbers and tombstones.
\<close>

theorem table_roundtrip:
  assumes "platform E" "varint_leb128 E" "snappy_inverts E compress"
    and "buf = write_table E compress (map wblock_of bs) meta mh index" "buffer_ok E buf"
    and "\<forall>b \<in> set bs. wblock_ok (wblock_of b)" "\<forall>(es, _) \<in> set bs. \<forall>e \<in> set es. te_seq e < 2 ^ 56"
    and "wblock_ok index" "length ks = length bs"
      "wb_entries index = index_entries ks (block_handles compress 0 (map wblock_of bs))"
  shows "parse_table E buf origin = Ok (concat (map (\<lambda>(es, _). map (te_record origin) es) bs))"
  using assms by (rule parse_table_entries)

theorem table_roundtrip_witness:
  "parse_table ref_env sample_table sample_path = Ok
     [\<lparr>rec_key = [0x6B, 0x31], rec_value = [0x76], rec_seq = 7, rec_deleted = False, rec_origin = sample_path\<rparr>,
      \<lparr>rec_key = [0x6B, 0x32], rec_value = [], rec_seq = 9, rec_deleted = True, rec_origin = sample_path\<rparr>]"
  using table_roundtrip [OF sample_table_facts, of "[(0, [0x7A])]" sample_path]
  by (simp add: sample_blocks_def sample_index_def sample_entries_def)

text \<open>
  C6: on every buffer the table parser returns records or a typed error: no panic, no endless
  loop, whatever the footer, the handles, the restart counts and the varints say.
\<close>

theorem parse_table_total:
  assumes "platform E" "varint_progress E" "snappy_length E" "buffer_ok E buf"
  shows "(\<exists>rs. parse_table E buf origin = Ok rs) \<or> (\<exists>e. parse_table E buf origin = Err e)"
  using parse_table_returns [OF assms] by (simp add: returns_cases)

theorem parse_table_total_witness:
  "(\<exists>rs. parse_table ref_env (replicate 100 0xFF) sample_path = Ok rs) \<or>
   (\<exists>e. parse_table ref_env (replicate 100 0xFF) sample_path = Err e)"
  by (rule parse_table_total [OF ref_platform ref_varint(1) ref_snappy(1)]) (simp add: ref_buffer)

text \<open>
  The entries of a block, with any sharing of prefixes and any restart array, are read
  back with their full keys.
\<close>

theorem block_entries_roundtrip:
  assumes "platform E" "varint_leb128 E" "buffer_ok E (encode_block es restarts)"
    and "shares_ok [] es" "length restarts < 2 ^ 32"
  shows "parse_block_entries E (encode_block es restarts) = Ok (map snd es)"
  using assms by (rule parse_block_entries_encoded)

theorem block_entries_roundtrip_witness:
  "parse_block_entries ref_env (encode_block [(0, [1, 2, 3], [9]), (2, [1, 2, 4], []), (3, [1, 2, 4, 5], [7])] [0])
     = Ok [([1, 2, 3], [9]), ([1, 2, 4], []), ([1, 2, 4, 5], [7])]"
proof -
  let ?es = "[(0, [1, 2, 3], [9]), (2, [1, 2, 4], []), (3, [1, 2, 4, 5], [7])] :: wentry list"
  have "length (encode_block ?es [0]) < 2 ^ 63" using length_encode_block [of ?es "[0]"] by simp
  then have "buffer_ok ref_env (encode_block ?es [0])" by (rule ref_buffer)
  from block_entries_roundtrip [OF ref_platform ref_varint(2) this] show ?thesis by simp
qed

text \<open>
  C35: parsing the entries of any block returns, and no key or value it returns is longer
  than the block: the shared-prefix lengths cannot blow a key up.
\<close>

theorem block_entries_bounded:
  assumes "platform E" "varint_progress E" "buffer_ok E block"
  shows "(\<exists>es. parse_block_entries E block = Ok es \<and>
      (\<forall>(k, v) \<in> set es. length k \<le> length block \<and> length v \<le> length block)) \<or>
    (\<exists>e. parse_block_entries E block = Err e)"
  using parse_block_entries_yields [OF assms] by (cases "parse_block_entries E block") simp_all

definition short_block :: bytes where
  "short_block = [0, 1, 0, 0x6B, 0, 0, 0, 0]"

theorem block_entries_bounded_witness:
  "(\<exists>es. parse_block_entries ref_env short_block = Ok es \<and>
      (\<forall>(k, v) \<in> set es. length k \<le> length short_block \<and> length v \<le> length short_block)) \<or>
    (\<exists>e. parse_block_entries ref_env short_block = Err e)"
  by (rule block_entries_bounded [OF ref_platform ref_varint(1)]) (simp add: ref_buffer short_block_def)

text \<open>
  C10: integrity. A block is returned exactly when the file holds, at the offset and of the size
  the handle names, a payload followed by its compression type and the masked crc of both, and
  the payload decodes; then what is returned is the decoded payload.
\<close>

theorem block_exact:
  assumes "platform E" "length buf \<le> usize_max E"
  shows "read_block E buf h = Ok d \<longleftrightarrow>
    (\<exists>before p t after. buf = before @ p @ [t] @ to_le 4 (unat (sst_mask_crc (crc32c E (p @ [t])))) @ after \<and>
       length before = unat (bh_offset h) \<and> length p = unat (bh_size h) \<and>
       decode_block E t p (unat (bh_offset h)) (unat (bh_size h)) = Ok d)"
  using read_block_exact [OF assms, of h d] by (simp add: stored_block_def)

theorem block_exact_witness:
  "read_block ref_env (stored_block ref_env 0 [1, 2, 3]) (handle_at 0 [1, 2, 3]) = Ok [1, 2, 3]"
proof -
  have "\<exists>before p t after. stored_block ref_env 0 [1, 2, 3] =
      before @ p @ [t] @ to_le 4 (unat (sst_mask_crc (crc32c ref_env (p @ [t])))) @ after \<and>
    length before = unat (bh_offset (handle_at 0 [1, 2, 3])) \<and>
    length p = unat (bh_size (handle_at 0 [1, 2, 3])) \<and>
    decode_block ref_env t p (unat (bh_offset (handle_at 0 [1, 2, 3])))
      (unat (bh_size (handle_at 0 [1, 2, 3]))) = Ok [1, 2, 3]"
    by (rule exI [of _ "[]"], rule exI [of _ "[1, 2, 3]"], rule exI [of _ 0], rule exI [of _ "[]"])
      (simp add: stored_block_def handle_at_def as_u64_def decode_block_def COMPRESSION_NONE_def)
  moreover have "length (stored_block ref_env 0 [1, 2, 3]) \<le> usize_max ref_env"
    by (simp add: BLOCK_TRAILER_LEN_def)
  ultimately show ?thesis using block_exact [OF ref_platform] by blast
qed

text \<open>
  C16: every record of a table was decoded from an entry of a block that passed the checks of
  \<open>read_block\<close>: none comes from bytes whose checksum fails.
\<close>

theorem table_sound:
  assumes "parse_table E buf origin = Ok rs" "r \<in> set rs"
  shows "\<exists>h d entries e. read_block E buf h = Ok d \<and> parse_block_entries E d = Ok entries \<and>
    e \<in> set entries \<and> entry_record origin e = Some r"
  using assms table_loop_sound by (fastforce simp: parse_table_def bind_eq_Ok)

theorem table_sound_witness:
  "\<exists>h d entries e. read_block ref_env sample_table h = Ok d \<and> parse_block_entries ref_env d = Ok entries \<and>
     e \<in> set entries \<and> entry_record sample_path e = Some (hd sample_table_records)"
  by (rule table_sound [OF sample_parse_table]) (simp add: sample_table_records_def sample_entries_def)

text \<open>
  An internal key splits into the user key, the 56-bit sequence number and the tombstone
  flag it was made from; a key too short for a trailer is rejected.
\<close>

theorem internal_key_roundtrip:
  assumes "seq < 2 ^ 56"
  shows "split_internal_key (internal_key k seq t) = Ok (Some (k, word_of_nat seq, t = 0))
    \<and> (\<forall>short. length short < 8 \<longrightarrow> split_internal_key short = Ok None)"
  using entry_record_internal [OF assms, of undefined k t "[]"]
  by (auto simp: split_internal_key_eq entry_record_def Let_def)

theorem internal_key_roundtrip_witness:
  "split_internal_key (internal_key [0x6B] 300 1) = Ok (Some ([0x6B], 300, False))"
  using internal_key_roundtrip [of 300 "[0x6B]" 1] by simp

text \<open>
  C36: the footer is checked before anything is read through it. A file shorter than a footer,
  or with another magic number, is refused with an error that carries the bytes found there.
\<close>

theorem footer_errors:
  assumes "length buf \<le> usize_max E"
  shows "(length buf < 48 \<longrightarrow> parse_footer E buf = Err (UnexpectedEof ''SSTable footer'' 0)) \<and>
    (48 \<le> length buf \<and> drop (length buf - 8) buf \<noteq> to_le 8 0xdb4775248b80fb57 \<longrightarrow>
       parse_footer E buf = Err (BadTableMagic (drop (length buf - 8) buf) (length buf - 8)))"
proof (intro conjI impI)
  assume "length buf < 48"
  then show "parse_footer E buf = Err (UnexpectedEof ''SSTable footer'' 0)"
    by (simp add: parse_footer_def FOOTER_LEN_def)
next
  let ?m = "drop (length buf - 8) buf"
  assume len: "48 \<le> length buf \<and> ?m \<noteq> to_le 8 0xdb4775248b80fb57"
  have lm: "length ?m = 8" using len by simp
  have "u64_from_le_bytes ?m \<noteq> TABLE_MAGIC"
  proof
    assume "u64_from_le_bytes ?m = TABLE_MAGIC"
    then have "unat (u64_from_le_bytes ?m) = 0xdb4775248b80fb57" by (simp add: TABLE_MAGIC_def)
    moreover have "from_le ?m < 2 ^ 64" using from_le_less [of ?m] lm by simp
    ultimately have "from_le ?m = 0xdb4775248b80fb57" by (simp add: u64_from_le_bytes_def unat_of_nat)
    with to_le_from_le [OF lm] len show False by simp
  qed
  moreover have "length buf - 48 + 40 = length buf - 8" using len by simp
  ultimately show "parse_footer E buf = Err (BadTableMagic ?m (length buf - 8))"
    using len assms
    by (simp add: parse_footer_def FOOTER_LEN_def MAGIC_OFFSET_def slice_Ok Let_def plus_usize_def
        checked_add_def)
qed

theorem footer_errors_witness:
  "parse_footer ref_env (replicate 48 0) = Err (BadTableMagic (replicate 8 0) 40)"
proof -
  have "length (replicate 48 (0 :: u8)) \<le> usize_max ref_env" by simp
  moreover have "replicate 8 (0 :: u8) \<noteq> to_le 8 0xdb4775248b80fb57"
  proof
    assume "replicate 8 (0 :: u8) = to_le 8 0xdb4775248b80fb57"
    then have "from_le (replicate 8 0) = from_le (to_le 8 0xdb4775248b80fb57)" by simp
    then show False by (simp add: from_le_zeros from_le_to_le)
  qed
  ultimately show ?thesis using footer_errors [of "replicate 48 0" ref_env] by simp
qed

section \<open>Length-prefixed fields\<close>

text \<open>
  C37: a length prefix is believed only as far as bytes remain. A field is returned with
  exactly the announced length from within the buffer; a longer announcement is an error that
  reports the announced length, what was available and the offset of the prefix.
\<close>

theorem length_prefix_checked:
  assumes "platform E" "varint_progress E" "wf_cursor E c" "read_varint_u64 E c = Ok (len, c1)"
  shows "read_length_prefixed E what c =
    (if unat len \<le> length (rest_of c1) then Ok (take (unat len) (rest_of c1), advance (unat len) c1)
     else Err (LengthOutOfRange what len (word_of_nat (length (rest_of c1))) (cpos c)))"
proof -
  have wf: "wf_cursor E c1" using varint64_op.op_advances [OF assms(2-4)] by simp
  then have small: "length (rest_of c1) < 2 ^ 64" "length (rest_of c1) \<le> usize_max E"
    using platform_bounds [OF assms(1)] by (auto simp: wf_cursor_def rest_of_def)
  then have "unat (as_u64 (remaining c1)) = length (rest_of c1)"
    by (simp add: as_u64_def unat_of_nat length_rest_of)
  then have "as_u64 (remaining c1) < len \<longleftrightarrow> \<not> unat len \<le> length (rest_of c1)"
    by (simp add: word_less_nat_alt not_le)
  moreover have "cur_take E (unat len) what c1 = Ok (take (unat len) (rest_of c1), advance (unat len) c1)"
    if "unat len \<le> length (rest_of c1)"
    using that wf by (auto simp: cur_take_Ok advance_def rest_of_def wf_cursor_def)
  ultimately show ?thesis
    using assms(4) small by (auto simp: read_length_prefixed_def Let_def as_u64_def length_rest_of)
qed

theorem length_prefix_checked_witness:
  "read_length_prefixed ref_env ''op key'' (cursor_new [5, 1, 2]) = Err (LengthOutOfRange ''op key'' 5 2 0)"
proof -
  have "read_varint_u64 ref_env (cursor_new [5, 1, 2]) = Ok (5, (cursor_new [5, 1, 2])\<lparr>cpos := 1\<rparr>)"
    using leb_read.simps(3) [of 9 5 "[1, 2]"]
    by (simp add: read_varint_u64_rest ref_decode_var_def saturating_add_def)
  from length_prefix_checked [OF ref_platform ref_varint(1) _ this, of "''op key''"]
  show ?thesis by (simp add: rest_of_def)
qed

end
