(* ===== verification/End_To_End.thy ===== *)
theory End_To_End
  imports Cli Table_Theorems
begin

text \<open>
  The parts composed: files in the formats of LevelDB, a directory of such files, the dump of
  the directory as the command line tool writes it.
\<close>

section \<open>Files in the formats\<close>

text \<open>A file of the directory and the records it stands for.\<close>

inductive holds :: "core_env \<Rightarrow> (bytes \<Rightarrow> bytes) \<Rightarrow> path \<Rightarrow> bytes \<Rightarrow> record_t list \<Rightarrow> bool"
  for E compress where
  log_file: "file_kind p = Log_File \<Longrightarrow> counts_ok bs \<Longrightarrow>
    holds E compress p (write_log E 0 (encoded bs) @ replicate k 0) (records_of p bs)"
| table_file: "file_kind p = Table_File \<Longrightarrow> \<forall>b \<in> set bs. wblock_ok (wblock_of b) \<Longrightarrow>
    \<forall>(es, _) \<in> set bs. \<forall>e \<in> set es. te_seq e < 2 ^ 56 \<Longrightarrow>
    wblock_ok index \<Longrightarrow> length ks = length bs \<Longrightarrow>
    wb_entries index = index_entries ks (block_handles compress 0 (map wblock_of bs)) \<Longrightarrow>
    holds E compress p (write_table E compress (map wblock_of bs) meta mh index)
      (concat (map (\<lambda>(es, _). map (te_record p) es) bs))"
| other_file: "file_kind p = Other_File \<Longrightarrow> holds E compress p buf []"

definition crates_ok :: "core_env \<Rightarrow> (bytes \<Rightarrow> bytes) \<Rightarrow> bool" where
  "crates_ok E compress \<longleftrightarrow> core_ok E \<and> varint_leb128 E \<and> snappy_inverts E compress"

lemma holds_records:
  assumes E: "crates_ok E compress" and rd: "read_file FS p = Inr buf" "buffer_ok E buf"
    and "holds E compress p buf rs"
  shows "file_records E FS p = rs"
  using assms(4)
proof cases
  case (log_file bs k)
  from E have "platform E" "varint_leb128 E" by (simp_all add: crates_ok_def core_ok_def)
  from parse_log_written [OF this rd(2) log_file(1,4)] log_file(2,3) rd(1) show ?thesis
    by (simp add: file_records_def salvage_def parse_log_bytes_def)
next
  case (table_file bs index ks meta mh)
  from E have "platform E" "varint_leb128 E" "snappy_inverts E compress"
    by (simp_all add: crates_ok_def core_ok_def)
  from parse_table_entries [OF this table_file(1) rd(2) table_file(4-)] table_file(2,3) rd(1)
  show ?thesis by (simp add: file_records_def salvage_def parse_table_bytes_def)
next
  case other_file
  with rd show ?thesis by (simp add: file_records_def)
qed

text \<open>What a file of a listing contributes: nothing where it cannot be read.\<close>

definition contributes ::
    "core_env \<Rightarrow> (bytes \<Rightarrow> bytes) \<Rightarrow> fs_env \<Rightarrow> path \<Rightarrow> record_t list \<Rightarrow> bool" where
  "contributes E compress FS p rs \<longleftrightarrow>
     (case read_file FS p of Inl _ \<Rightarrow> rs = [] | Inr buf \<Rightarrow> holds E compress p buf rs)"

lemma contributes_records:
  assumes "crates_ok E compress" "files_ok E FS" "contributes E compress FS p rs"
  shows "file_records E FS p = rs"
proof (cases "read_file FS p")
  case (Inl e)
  with assms(3) show ?thesis by (simp add: contributes_def file_records_def split: file_kind.split)
next
  case (Inr buf)
  with assms(3) have "holds E compress p buf rs" by (simp add: contributes_def)
  with Inr show ?thesis by (intro holds_records [OF assms(1) Inr files_okD [OF assms(2) Inr]])
qed

lemma read_dir_holds:
  assumes "crates_ok E compress" "files_ok E FS" "list_dir FS dir = Inr (map Inr names)"
    and "\<And>name. name \<in> set names \<Longrightarrow> contributes E compress FS (entry_path dir name) (content (entry_path dir name))"
  shows "read_dir E FS dir = Ok (concat (map content (sort (map (entry_path dir) names))))"
proof -
  have "core_ok E" using assms(1) by (simp add: crates_ok_def)
  moreover have "file_records E FS p = content p" if "p \<in> set (sort (map (entry_path dir) names))" for p
    using that contributes_records [OF assms(1,2) assms(4)] by auto
  then have "map (file_records E FS) (sort (map (entry_path dir) names)) =
      map content (sort (map (entry_path dir) names))"
    by (rule map_ext [OF impI])
  ultimately show ?thesis using read_dir_names [OF _ assms(2,3)] by (simp only: simp_thms)
qed

text \<open>One file in the formats suffices for its own records, whatever the other files hold.\<close>

lemma read_dir_includes:
  assumes "crates_ok E compress" "files_ok E FS" "list_dir FS dir = Inr (map Inr names)"
    and "name \<in> set names" "read_file FS (entry_path dir name) = Inr buf"
    and "holds E compress (entry_path dir name) buf rs"
  shows "\<exists>recs. read_dir E FS dir = Ok recs \<and> set rs \<subseteq> set recs"
proof -
  have "core_ok E" using assms(1) by (simp add: crates_ok_def)
  moreover have "file_records E FS (entry_path dir name) = rs"
    by (rule holds_records [OF assms(1,5) files_okD [OF assms(2,5)] assms(6)])
  ultimately show ?thesis using read_dir_names [OF _ assms(2,3)] assms(4) by fastforce
qed

section \<open>Dumps in memory\<close>

lemma writeln_vec: "writeln vec_put line w = (None, w @ line @ [10])"
  by (simp add: writeln_def vec_put_def)

lemma write_each_vec: "write_each vec_put line rs w = (None, w @ output_of line rs)"
  by (induction rs arbitrary: w) (simp_all add: writeln_vec)

lemma write_csv_vec: "write_csv vec_put header line rs w = (None, w @ header @ 10 # output_of line rs)"
  by (simp add: write_csv_def writeln_vec write_each_vec)

text \<open>Written to a vector, a dump is its rendering.\<close>

lemma render_vec:
  "render_raw q vec_put rs fmt w = (None, w @ format_text raw_csv_header raw_text raw_jsonl (raw_csv q) fmt rs)"
  "render_local q vec_put ls fmt w =
     (None, w @ format_text local_csv_header local_text local_jsonl (local_csv q) fmt ls)"
  "render_session q vec_put ss fmt w =
     (None, w @ format_text session_csv_header session_text session_jsonl (session_csv q) fmt ss)"
  by (cases fmt; simp add: render_defs format_text_def write_each_vec write_csv_vec)+

lemma run_vec:
  assumes "read_dir (core C) (fs C) dir = Ok recs" "put C = vec_put"
  shows "run C dir m fmt w = (Ok (), w @ dump_text (protobuf C) (quoter C) m fmt recs)"
  by (cases m) (simp_all add: run_def assms render_vec dump_text_def Let_def
      decode_local_storage_records_def decode_session_storage_records_def)

text \<open>What a JSONL dump says of a directory of well-formed files.\<close>

lemma dump_holds:
  assumes "crates_ok (core C) compress" "files_ok (core C) (fs C)" "writer_ok (put C) contents"
    and "list_dir (fs C) dir = Inr (map Inr names)"
    and "\<And>name. name \<in> set names \<Longrightarrow>
      contributes (core C) compress (fs C) (entry_path dir name) (content (entry_path dir name))"
  shows "\<exists>t. map raw_of_line (text_lines t) = map (\<lambda>r. Some (rec_key r, rec_value r, rec_seq r, rec_deleted r))
        (concat (map content (sort (map (entry_path dir) names)))) \<and>
    ((\<exists>w'. run C dir Mode_Raw Jsonl w = (Ok (), w') \<and> contents w' = contents w @ t) \<or>
     (\<exists>w' e s. run C dir Mode_Raw Jsonl w = (Err (Write e), w') \<and> contents w' = contents w @ s \<and> prefix s t))"
proof -
  let ?recs = "concat (map content (sort (map (entry_path dir) names)))"
  let ?text = "dump_text (protobuf C) (quoter C) Mode_Raw Jsonl ?recs"
  have "read_dir (core C) (fs C) dir = Ok ?recs" by (rule read_dir_holds [OF assms(1,2,4,5)])
  from run_read [OF this assms(3), of Mode_Raw Jsonl w] obtain res w' where r:
    "run C dir Mode_Raw Jsonl w = ((case res of None \<Rightarrow> Ok () | Some e \<Rightarrow> Err (Write e)), w')"
    "written contents w ?text (res, w')" by blast
  then have "(\<exists>w'. run C dir Mode_Raw Jsonl w = (Ok (), w') \<and> contents w' = contents w @ ?text) \<or>
     (\<exists>w' e s. run C dir Mode_Raw Jsonl w = (Err (Write e), w') \<and> contents w' = contents w @ s \<and> prefix s ?text)"
    by (cases res) (auto simp: written_def)
  with jsonl_dump_read(2) show ?thesis by blast
qed

section \<open>Entries of web storage\<close>

text \<open>What the decoder of Local Storage finds of an entry that one of the files was written with.\<close>

lemma entry_recovered:
  assumes "crates_ok E compress" "files_ok E FS" "list_dir FS dir = Inr (map Inr names)"
    and "name \<in> set names" "read_file FS (entry_path dir name) = Inr buf"
    and "holds E compress (entry_path dir name) buf rs" "r \<in> set rs"
    and entry: "latin1_text origin" "0 \<notin> set origin" "typed_text k" "typed_text v"
      "rec_key r = data_key origin k" "rec_value r = type_encode v" "\<not> rec_deleted r"
  shows "\<exists>ls sk val. decode_local_storage E FS pb dir = Ok ls \<and>
    Local_Data origin sk val (rec_seq r) False \<in> set ls \<and> clean sk = Some k \<and> clean val = Some v"
proof -
  obtain recs where recs: "read_dir E FS dir = Ok recs" "r \<in> set recs"
    using read_dir_includes [OF assms(1-6)] assms(7) by blast
  then have "decode_local_storage E FS pb dir = Ok (map (local_of pb) recs)"
    by (simp add: decode_local_storage_def decode_local_storage_records_def local_decode_def)
  moreover have "local_of pb r \<in> set (map (local_of pb) recs)" using recs(2) by simp
  moreover obtain sk val where "local_of pb r = Local_Data origin sk val (rec_seq r) False"
    "clean sk = Some k" "clean val = Some v"
    using local_of_entry [OF entry] by blast
  ultimately show ?thesis by metis
qed

text \<open>
  What the decoder of Session Storage makes of a map entry and a namespace record, each written
  to some file, when no live namespace record contradicts the host.
\<close>

lemma map_of_unique:
  assumes "(k, v) \<in> set ps" "\<And>v'. (k, v') \<in> set ps \<Longrightarrow> v' = v"
  shows "map_of ps k = Some v"
  using assms by (metis map_of_SomeD weak_map_of_SomeI)

lemma session_recovered:
  assumes "crates_ok E compress" "files_ok E FS" "list_dir FS dir = Inr (map Inr names)"
    and ns: "n1 \<in> set names" "read_file FS (entry_path dir n1) = Inr buf1"
      "holds E compress (entry_path dir n1) buf1 rs1" "ns \<in> set rs1"
    and r: "n2 \<in> set names" "read_file FS (entry_path dir n2) = Inr buf2"
      "holds E compress (entry_path dir n2) buf2 rs2" "r \<in> set rs2"
    and keys: "scalars g" "scalars host" "dash \<notin> set g" "scalars mid" "scalars k" "dash \<notin> set mid"
      "rec_key ns = namespace_key g host" "rec_value ns = utf8_encode mid" "\<not> rec_deleted ns"
      "rec_key r = map_key mid k"
    and agree: "read_dir E FS dir = Ok recs" "\<forall>x \<in> set recs. \<forall>h. host_link x = Some (mid, h) \<longrightarrow> h = host"
  shows "\<exists>ss. decode_session_storage E FS dir = Ok ss \<and>
    Session_Map mid (Some host) k (if rec_deleted r then empty_value else decode_session_value (rec_value r))
      (rec_seq r) (rec_deleted r) \<in> set ss"
proof -
  have recs: "ns \<in> set recs" "r \<in> set recs"
    using read_dir_includes [OF assms(1-3) ns(1-3)] read_dir_includes [OF assms(1-3) r(1-3)] ns(4) r(4) agree(1)
    by auto
  have "host_link ns = Some (mid, host)" by (rule host_link_namespace) fact+
  with recs(1) have "(mid, host) \<in> set (List.map_filter host_link recs)"
    by (force simp: map_filter_def)
  moreover have "h = host" if "(mid, h) \<in> set (List.map_filter host_link recs)" for h
    using that agree(2) by (auto simp: map_filter_def)
  ultimately have "map_of (List.map_filter host_link recs) mid = Some host" by (rule map_of_unique)
  with session_of_map [OF keys(4-6,10), of "map_of (List.map_filter host_link recs)"]
  have "session_of (map_of (List.map_filter host_link recs)) r =
      Session_Map mid (Some host) k (if rec_deleted r then empty_value else decode_session_value (rec_value r))
        (rec_seq r) (rec_deleted r)"
    by simp
  with recs(2) have "Session_Map mid (Some host) k
      (if rec_deleted r then empty_value else decode_session_value (rec_value r))
      (rec_seq r) (rec_deleted r) \<in> set (session_decode recs)"
    unfolding session_decode_eq by (metis image_eqI set_map)
  then show ?thesis
    using agree(1) by (simp add: decode_session_storage_def decode_session_storage_records_def)
qed

end
