(* ===== verification/Text_Wellformed.thy ===== *)
theory Text_Wellformed
  imports End_To_End
begin

text \<open>
  The type of Rust strings: a \<open>String\<close> holds Unicode scalar values, which the model does not
  enforce by its type of code point lists. Here it is proved of every text the decoders and
  renderers produce, so that what the tool writes is UTF-8.
\<close>

section \<open>Decoded records\<close>

fun wf_value :: "storage_value \<Rightarrow> bool" where
  "wf_value v \<longleftrightarrow> scalars (sv_text v)"

declare wf_value.simps [simp del]

fun wf_local :: "local_record \<Rightarrow> bool" where
  "wf_local (Local_Meta origin ts sz seq del) \<longleftrightarrow> scalars origin"
| "wf_local (Local_Data origin script_key val seq del) \<longleftrightarrow> scalars origin \<and> wf_value script_key \<and> wf_value val"
| "wf_local (Local_Other key seq del) \<longleftrightarrow> True"

fun wf_session :: "session_record \<Rightarrow> bool" where
  "wf_session (Session_Namespace g host mid seq del) \<longleftrightarrow> scalars g \<and> scalars host \<and> scalars mid"
| "wf_session (Session_Map mid host script_key val seq del) \<longleftrightarrow>
     scalars mid \<and> (\<forall>h. host = Some h \<longrightarrow> scalars h) \<and> scalars script_key \<and> wf_value val"
| "wf_session (Session_Other key seq del) \<longleftrightarrow> True"

lemma wf_values [simp]:
  "wf_value (decode_type_prefixed raw)" "wf_value (decode_session_value raw)" "wf_value empty_value"
  by (simp_all add: wf_value.simps decode_type_prefixed_scalars decode_session_value_scalars)

lemma wf_local_of: "wf_local (local_of pb r)"
  by (auto simp: local_of_def Let_def latin1_scalars split: list.splits option.splits)

lemma split3_scalars: "scalars s \<Longrightarrow> split3 s = Some (m, t) \<Longrightarrow> scalars m \<and> scalars t"
  by (erule split3_sound) auto

lemma utf8_split_scalars:
  assumes "Option.bind (from_utf8 key) split3 = Some (m, t)"
  shows "scalars m \<and> scalars t"
proof -
  from assms obtain s where s: "from_utf8 key = Some s" "split3 s = Some (m, t)"
    by (auto simp: bind_eq_Some_conv)
  from from_utf8_sound [OF s(1)] have "scalars s" ..
  then show ?thesis using s(2) by (rule split3_scalars)
qed

lemma host_link_scalars: "host_link r = Some (mid, host) \<Longrightarrow> scalars host"
  using utf8_split_scalars [of "rec_key r"] by (auto simp: host_link_def split: if_splits option.splits)

lemma wf_session_of:
  assumes "\<And>mid h. hosts mid = Some h \<Longrightarrow> scalars h"
  shows "wf_session (session_of hosts r)"
  using assms utf8_split_scalars [of "rec_key r"] from_utf8_lossy_scalars
  by (auto simp: session_of_def session_other_def Let_def split: option.splits)

lemma wf_session_decode: "s \<in> set (session_decode recs) \<Longrightarrow> wf_session s"
proof -
  have "scalars h" if "map_of (List.map_filter host_link recs) mid = Some h" for mid h
    using map_of_SomeD [OF that] host_link_scalars by (auto simp: map_filter_def)
  then show "s \<in> set (session_decode recs) \<Longrightarrow> wf_session s"
    by (auto simp: session_decode_eq intro: wf_session_of)
qed

section \<open>Fragments\<close>

lemma scalars_small: "\<forall>c \<in> set s. c < 128 \<Longrightarrow> scalars s"
  by (auto simp: scalars_def)

lemma scalars_concat: "scalars (concat xss) \<longleftrightarrow> (\<forall>xs \<in> set xss. scalars xs)"
  by (induction xss) auto

lemma is_hex_small: "is_hex c \<Longrightarrow> c < 128" "is_digit c \<Longrightarrow> c < 128"
  by (auto simp: is_hex_def is_digit_def)

lemma scalars_texts [simp]:
  "scalars (dec n)" "scalars (hex_fixed k n)" "scalars (hex bs)" "scalars (show_u64 w)"
  "scalars (show_bool b)" "scalars (encoding_str e)" "scalars (path_display p)"
proof -
  show d: "scalars (dec n)" for n using dec_digits is_hex_small by (blast intro: scalars_small)
  show h: "scalars (hex_fixed k n)" using hex_fixed_hex is_hex_small by (blast intro: scalars_small)
  show "scalars (hex bs)" using hex_is_hex is_hex_small by (blast intro: scalars_small)
  show "scalars (show_u64 w)" by (simp add: show_u64_def d)
  show "scalars (show_bool b)" by (simp add: show_bool_def)
  have "scalars (hex_fixed 2 n)" for n using hex_fixed_hex is_hex_small by (blast intro: scalars_small)
  then show "scalars (encoding_str e)" by (cases e) simp_all
  show "scalars (path_display p)" by (simp add: path_display_def from_utf8_lossy_scalars)
qed

lemma scalars_json_string [simp]: "scalars (json_string s) \<longleftrightarrow> scalars s"
proof -
  have "scalars (json_char c) \<longleftrightarrow> is_scalar c" for c by (simp add: json_char_def)
  then show ?thesis by (auto simp: json_string_def scalars_concat scalars_def)
qed

lemma scalars_oneline: "scalars s \<Longrightarrow> scalars (oneline s)"
  by (auto simp: oneline_def scalars_def)

lemma scalars_join_comma [simp]: "scalars (join_comma xs) \<longleftrightarrow> (\<forall>x \<in> set xs. scalars x)"
  by (induction xs rule: join_comma.induct) auto

lemma scalars_json_object: "\<forall>m \<in> set ms. scalars (snd m) \<Longrightarrow> scalars (json_object ms)"
  by (auto simp: json_object_def json_member_def)

lemma scalars_opt_text: "scalars d \<Longrightarrow> (\<And>s. x = Some s \<Longrightarrow> scalars s) \<Longrightarrow> scalars (opt_text d x)"
  by (cases x) simp_all

lemma scalars_opts [simp]: "scalars (opt_text (lit d) (map_option show_u64 sz))"
  "scalars (opt_text [] (map_option show_u64 sz))"
  "(\<And>h. host = Some h \<Longrightarrow> scalars h) \<Longrightarrow> scalars (opt_text (lit d) (map_option json_string host))"
  by (rule scalars_opt_text; auto)+

section \<open>Lines\<close>

definition quoter_ok :: "csv_quoter \<Rightarrow> bool" where
  "quoter_ok q \<longleftrightarrow> (\<forall>s. scalars s \<longrightarrow> scalars (q s))"

lemma quoter_okD: "quoter_ok q \<Longrightarrow> scalars s \<Longrightarrow> scalars (q s)"
  by (simp add: quoter_ok_def)

lemma scalars_raw_lines:
  "scalars (raw_text r)" "scalars (raw_jsonl r)" "quoter_ok q \<Longrightarrow> scalars (raw_csv q r)"
  by (simp_all add: raw_text_def raw_jsonl_def raw_csv_def scalars_json_object quoter_okD)

lemma scalars_local_lines:
  assumes "wf_local l"
  shows "scalars (local_text l)" "scalars (local_jsonl l)" "quoter_ok q \<Longrightarrow> scalars (local_csv q l)"
  using assms
  by (cases l; simp add: scalars_json_object scalars_oneline quoter_okD wf_value.simps del: join_comma.simps)+

lemma scalars_session_lines:
  assumes "wf_session l"
  shows "scalars (session_text l)" "scalars (session_jsonl l)" "quoter_ok q \<Longrightarrow> scalars (session_csv q l)"
  using assms
  by (cases l; simp add: scalars_json_object scalars_oneline scalars_opt_text quoter_okD wf_value.simps
      del: join_comma.simps)+

lemma scalars_format_text:
  assumes "scalars header" "\<forall>r \<in> set rs. scalars (txt r) \<and> scalars (jsonl r) \<and> scalars (csv r)"
  shows "scalars (format_text header txt jsonl csv fmt rs)"
  using assms by (cases fmt) (auto simp: format_text_def output_of_def scalars_concat)

lemma dump_scalars:
  assumes "quoter_ok q"
  shows "scalars (dump_text pb q m fmt recs)"
  using assms wf_local_of wf_session_decode
  by (cases m) (auto simp: dump_text_def local_decode_def raw_csv_header_def local_csv_header_def
      session_csv_header_def scalars_raw_lines scalars_local_lines scalars_session_lines
      intro!: scalars_format_text)

text \<open>What is written is UTF-8, and reads back as the text.\<close>

lemma dump_utf8:
  "quoter_ok q \<Longrightarrow> from_utf8 (utf8_encode (dump_text pb q m fmt recs)) = Some (dump_text pb q m fmt recs)"
  by (rule from_utf8_encode) (rule dump_scalars)

end
