(* ===== verification/Fuzz_Targets.thy ===== *)
theory Fuzz_Targets
  imports Text_Wellformed
begin

text \<open>
  The harnesses of fuzz/fuzz_targets. A harness runs a parser or a decoder on any input and
  drops its result; it finds a bug when the run panics, does not end, or runs out of memory.
  What the fuzzer samples is proved here for every input.
\<close>

text \<open>\<open>let _ = f(data);\<close>\<close>

definition discard :: "('e, 'a) outcome \<Rightarrow> ('f, unit) outcome" where
  "discard r = (case r of Panic \<Rightarrow> Panic | Diverge \<Rightarrow> Diverge | _ \<Rightarrow> Ok ())"

definition fuzz_parse_log :: "core_env \<Rightarrow> bytes \<Rightarrow> (error, unit) outcome" where
  "fuzz_parse_log E dat =
     discard (parse_log_bytes E dat (Path [0x66, 0x75, 0x7A, 0x7A, 0x2E, 0x6C, 0x6F, 0x67]))"

definition fuzz_parse_table :: "core_env \<Rightarrow> bytes \<Rightarrow> (error, unit) outcome" where
  "fuzz_parse_table E dat =
     discard (parse_table_bytes E dat (Path [0x66, 0x75, 0x7A, 0x7A, 0x2E, 0x6C, 0x64, 0x62]))"

type_synonym fuzz_input = "bytes \<times> bytes \<times> u64 \<times> bool"

definition fuzz_record :: "fuzz_input \<Rightarrow> record_t" where
  "fuzz_record input =
     (let (key, val, seq, deleted) = input in
      \<lparr>rec_key = key, rec_value = val, rec_seq = seq, rec_deleted = deleted,
       rec_origin = Path [0x66, 0x75, 0x7A, 0x7A]\<rparr>)"

definition fuzz_decode_local :: "pb_decoder \<Rightarrow> fuzz_input \<Rightarrow> (error, unit) outcome" where
  "fuzz_decode_local pb input =
     discard (Ok (decode_local_storage_records pb [fuzz_record input]) :: (error, local_record list) outcome)"

definition fuzz_decode_session :: "fuzz_input \<Rightarrow> (error, unit) outcome" where
  "fuzz_decode_session input =
     discard (Ok (decode_session_storage_records [fuzz_record input]) :: (error, session_record list) outcome)"

lemma discard_returns: "returns r \<Longrightarrow> discard r = Ok ()"
  by (cases r) (simp_all add: discard_def)

lemma fuzz_parsers:
  assumes "core_ok E" "buffer_ok E dat"
  shows "fuzz_parse_log E dat = Ok ()" "fuzz_parse_table E dat = Ok ()"
  using assms
  by (simp_all add: fuzz_parse_log_def fuzz_parse_table_def discard_returns parse_log_bytes_def
      parse_table_bytes_def parse_log_eq parse_table_returns core_okD)

text \<open>
  The decoders are total functions of the model; that they produce well-formed records from
  the input of a harness, key, sequence number and flag kept, is what their totality amounts to.
\<close>

lemma fuzz_decoders:
  "fuzz_decode_local pb input = Ok ()" "fuzz_decode_session input = Ok ()"
  "l \<in> set (decode_local_storage_records pb [fuzz_record input]) \<Longrightarrow> wf_local l"
  "s \<in> set (decode_session_storage_records [fuzz_record input]) \<Longrightarrow> wf_session s"
  by (auto simp: fuzz_decode_local_def fuzz_decode_session_def discard_def
      decode_local_storage_records_def decode_session_storage_records_def local_decode_def
      wf_local_of intro: wf_session_decode)

end
