(* ===== verification/Render_Tests.thy ===== *)
theory Render_Tests
  imports Text_Wellformed "HOL-Library.Sublist"
begin

text \<open>
  The unit tests inside leveldb4n6 (render.rs, lib.rs) as predicates on the model, and the proof
  that the model passes them with any CSV quoter that does what jsonguard documents.
\<close>

section \<open>What the tests use\<close>

definition sv :: "rstring \<Rightarrow> storage_value" where
  "sv t = \<lparr>sv_text = t, sv_raw = utf8_encode t, sv_encoding = Utf16Le, sv_lossy = False\<rparr>"

text \<open>
  Rendering to a \<open>Vec<u8>\<close> that becomes a \<open>String\<close>; both calls of \<open>unwrap\<close> must succeed. The
  writer of the model holds the text whose UTF-8 encoding the vector holds.
\<close>

definition to_string :: "(rstring \<Rightarrow> io_error option \<times> rstring) \<Rightarrow> rstring option" where
  "to_string f =
     (case f [] of (None, buf) \<Rightarrow> from_utf8 (utf8_encode buf) | (Some e, buf) \<Rightarrow> None)"

text \<open>\<open>str::split\<close> at a char, \<open>str::lines\<close>.\<close>

fun split_on :: "nat \<Rightarrow> rstring \<Rightarrow> rstring list" where
  "split_on d [] = [[]]"
| "split_on d (c # s) =
     (if c = d then [] # split_on d s
      else (case split_on d s of [] \<Rightarrow> [[c]] | w # ws \<Rightarrow> (c # w) # ws))"

definition strip_cr :: "rstring \<Rightarrow> rstring" where
  "strip_cr l = (if l \<noteq> [] \<and> last l = 13 then butlast l else l)"

definition str_lines :: "rstring \<Rightarrow> rstring list" where
  "str_lines s =
     (let ls = text_lines s in
      if s \<noteq> [] \<and> last s \<noteq> 10 then map strip_cr (butlast ls) @ [last ls] else map strip_cr ls)"

text \<open>A test on some output: it fails where the output cannot be had.\<close>

definition output_test :: "rstring option \<Rightarrow> (rstring \<Rightarrow> bool) \<Rightarrow> bool" where
  "output_test out P \<longleftrightarrow> (case out of None \<Rightarrow> False | Some s \<Rightarrow> P s)"

definition FORMATS :: "output_format list" where
  "FORMATS = [Text, Jsonl, Csv]"

section \<open>The tests\<close>

definition formula_payload :: "nat \<Rightarrow> rstring" where
  "formula_payload lead = lead # lit ''cmd|'/c calc'!A1''"

definition cells_guarded :: "nat \<Rightarrow> rstring \<Rightarrow> bool" where
  "cells_guarded lead out \<longleftrightarrow>
     (\<forall>cell \<in> set (concat (map (split_on 44) (drop 1 (str_lines out)))). \<not> prefix [lead] cell) \<and>
     sublist [39, lead] out"

definition csv_local_neutralizes :: "csv_quoter \<Rightarrow> bool" where
  "csv_local_neutralizes q \<longleftrightarrow>
     (\<forall>lead \<in> set [61, 43, 45, 64].
        let payload = formula_payload lead;
            recs = [Local_Data (lead # lit ''HYPERLINK('' @ [34] @ lit ''http://evil'' @ [34] @ lit '')'')
                      (sv payload) (sv payload) 1 False]
        in output_test (to_string (render_local q vec_put recs Csv)) (cells_guarded lead))"

definition csv_session_neutralizes :: "csv_quoter \<Rightarrow> bool" where
  "csv_session_neutralizes q \<longleftrightarrow>
     (\<forall>lead \<in> set [61, 43, 45, 64].
        let payload = formula_payload lead;
            recs = [Session_Map (lit ''7'') (Some payload) payload (sv payload) 1 False]
        in output_test (to_string (render_session q vec_put recs Csv)) (cells_guarded lead))"

definition raw_every_format :: "csv_quoter \<Rightarrow> bool" where
  "raw_every_format q \<longleftrightarrow>
     (let recs = [\<lparr>rec_key = [0x6B], rec_value = [0x76], rec_seq = 1, rec_deleted = True,
            rec_origin = Path [0x30, 0x30, 0x30, 0x30, 0x30, 0x35, 0x2E, 0x6C, 0x64, 0x62]\<rparr>]
      in \<forall>fmt \<in> set FORMATS. output_test (to_string (render_raw q vec_put recs fmt))
           (\<lambda>out. sublist (lit ''6b'') out \<and> sublist (lit ''76'') out))"

definition local_every_variant :: "csv_quoter \<Rightarrow> bool" where
  "local_every_variant q \<longleftrightarrow>
     (let recs =
        [Local_Meta (lit ''https://o'') 42 (Some 4096) 1 False,
         Local_Meta (lit ''https://o2'') 7 None 2 True,
         Local_Data (lit ''https://o'') (sv (lit ''the'' @ [9] @ lit ''me'')) (sv (lit ''dark'')) 3 False,
         Local_Other [0x56, 0x45, 0x52, 0x53, 0x49, 0x4F, 0x4E] 4 False]
      in \<forall>fmt \<in> set FORMATS. output_test (to_string (render_local q vec_put recs fmt))
           (\<lambda>out. sublist (lit ''dark'') out \<and> sublist (lit ''4096'') out \<and>
              sublist (lit ''56455253494f4e'') out))"

definition session_every_variant :: "csv_quoter \<Rightarrow> bool" where
  "session_every_variant q \<longleftrightarrow>
     (let recs =
        [Session_Namespace (lit ''g'') (lit ''https://h'') (lit ''7'') 1 False,
         Session_Map (lit ''7'') (Some (lit ''https://h'')) (lit ''greet'') (sv (lit ''hi'')) 2 False,
         Session_Map (lit ''9'') None (lit ''orphan'') (sv (lit ''x'')) 3 False,
         Session_Other [0x77, 0x65, 0x69, 0x72, 0x64] 4 False]
      in \<forall>fmt \<in> set FORMATS. output_test (to_string (render_session q vec_put recs fmt))
           (\<lambda>out. sublist (lit ''greet'') out \<and> sublist (lit ''orphan'') out \<and>
              sublist (lit ''77656972'') out))"

definition clierror_display_and_source :: "core_env \<Rightarrow> fs_env \<Rightarrow> bool" where
  "clierror_display_and_source E FS \<longleftrightarrow>
     (case read_dir E FS (Path [0x2F, 0x6E, 0x6F, 0x2F, 0x73, 0x75, 0x63, 0x68, 0x2F, 0x64, 0x69, 0x72]) of
        Err e \<Rightarrow>
          let read = Read e; write = Write (Io_Error (lit ''pipe'')) in
          sublist (lit ''reading LevelDB directory'') (cli_error_display read) \<and>
          sublist (lit ''writing output'') (cli_error_display write) \<and>
          cli_error_source read \<noteq> None \<and> cli_error_source write \<noteq> None
      | _ \<Rightarrow> False)"

section \<open>The quoter\<close>

text \<open>
  jsonguard: a string that starts like a formula gets an apostrophe in front, and what results
  is written as it is or as a quoted cell of RFC 4180.
\<close>

definition rfc_quote :: "rstring \<Rightarrow> rstring" where
  "rfc_quote s = 34 # concat (map (\<lambda>c. if c = 34 then [34, 34] else [c]) s) @ [34]"

definition guards :: "rstring \<Rightarrow> rstring \<Rightarrow> bool" where
  "guards s g \<longleftrightarrow> g = 39 # s \<or> g = s \<and> \<not> formula s"

definition apostrophe_quoter :: "csv_quoter \<Rightarrow> bool" where
  "apostrophe_quoter q \<longleftrightarrow> (\<forall>s. \<exists>g. guards s g \<and> (q s = g \<or> q s = rfc_quote g))"

lemma quoter_cases:
  assumes "apostrophe_quoter q"
  obtains g where "guards s g" "q s = g \<or> q s = rfc_quote g"
  using assms by (auto simp: apostrophe_quoter_def)

lemma set_rfc_quote: "set (rfc_quote s) \<subseteq> insert 34 (set s)"
  by (auto simp: rfc_quote_def)

lemma quoter_chars: "apostrophe_quoter q \<Longrightarrow> set (q s) \<subseteq> {34, 39} \<union> set s"
  by (rule quoter_cases [of q s]) (use set_rfc_quote in \<open>fastforce simp: guards_def\<close>)+

lemma apostrophe_quoter_ok: "apostrophe_quoter q \<Longrightarrow> quoter_ok q"
  using quoter_chars by (fastforce simp: quoter_ok_def scalars_def is_scalar_def)

lemma quoter_safe: "apostrophe_quoter q \<Longrightarrow> lead \<in> {61, 43, 45, 64} \<Longrightarrow> \<not> prefix [lead] (q s)"
  by (rule quoter_cases [of q s])
    (auto simp: guards_def rfc_quote_def formula_def prefix_def)

lemma sublist_parts:
  "sublist n x \<Longrightarrow> sublist n (x @ y)" "sublist n y \<Longrightarrow> sublist n (x @ y)" "sublist n y \<Longrightarrow> sublist n (c # y)"
  by (auto simp: sublist_append sublist_Cons_right)

lemma sublist_rfc_quote:
  assumes "sublist n s" "34 \<notin> set n"
  shows "sublist n (rfc_quote s)"
proof -
  let ?f = "\<lambda>s. concat (map (\<lambda>c. if c = 34 then [34, 34] else [c]) s)"
  have "?f n = n" using assms(2) by (induction n) auto
  moreover from assms(1) obtain ps ss where "s = ps @ n @ ss" by (auto simp: sublist_def)
  ultimately have "rfc_quote s = (34 # ?f ps) @ n @ (?f ss @ [34])" by (simp add: rfc_quote_def)
  then show ?thesis by (simp only: sublist_appendI)
qed

lemma quoter_contains: "apostrophe_quoter q \<Longrightarrow> sublist n s \<Longrightarrow> 34 \<notin> set n \<Longrightarrow> sublist n (q s)"
  by (rule quoter_cases [of q s]) (auto simp: guards_def intro!: sublist_rfc_quote sublist_parts)

lemma quoter_formula:
  "apostrophe_quoter q \<Longrightarrow> lead \<in> {61, 43, 45, 64} \<Longrightarrow> sublist [39, lead] (q (lead # s))"
  by (rule quoter_cases [of q "lead # s"])
    (auto simp: guards_def formula_def rfc_quote_def sublist_Cons_right)

section \<open>CSV cells\<close>

lemma split_on_plain: "d \<notin> set c \<Longrightarrow> split_on d c = [c]"
  by (induction c) auto

lemma split_on_append: "d \<notin> set c \<Longrightarrow> split_on d (c @ d # s) = c # split_on d s"
  by (induction c) auto

lemma split_on_join:
  "cs \<noteq> [] \<Longrightarrow> \<forall>c \<in> set cs. 44 \<notin> set c \<Longrightarrow> split_on 44 (join_comma cs) = cs"
  by (induction cs rule: join_comma.induct) (simp_all add: split_on_plain split_on_append)

lemma str_lines_csv:
  "10 \<notin> set header \<Longrightarrow> 10 \<notin> set row \<Longrightarrow> row \<noteq> [] \<Longrightarrow> last row \<noteq> 13 \<Longrightarrow>
   drop 1 (str_lines (header @ 10 # row @ [10])) = [row]"
  using text_lines_line [of row "[]"] by (simp add: str_lines_def strip_cr_def text_lines_line)

lemma last_join: "cs \<noteq> [] \<Longrightarrow> last cs \<noteq> [] \<Longrightarrow> join_comma cs \<noteq> [] \<and> last (join_comma cs) = last (last cs)"
  by (induction cs rule: join_comma.induct) auto

lemma set_join: "set (join_comma cs) \<subseteq> insert 44 (\<Union> (set ` set cs))"
  by (induction cs rule: join_comma.induct) auto

lemma sublist_join: "c \<in> set cs \<Longrightarrow> sublist n c \<Longrightarrow> sublist n (join_comma cs)"
  by (induction cs rule: join_comma.induct) (auto intro: sublist_parts)

text \<open>One row of guarded cells, below a header.\<close>

lemma one_row_guarded:
  assumes "10 \<notin> set header" "cells \<noteq> []" "last cells \<noteq> []" "last (last cells) \<noteq> 13"
    and "\<forall>c \<in> set cells. 10 \<notin> set c \<and> 44 \<notin> set c \<and> \<not> prefix [lead] c"
    and "c \<in> set cells" "sublist [39, lead] c"
  shows "cells_guarded lead (header @ 10 # join_comma cells @ [10])"
proof -
  have "10 \<notin> set (join_comma cells)" using set_join [of cells] assms(5) by auto
  with last_join [OF assms(2,3)] assms(1,4)
  have "drop 1 (str_lines (header @ 10 # join_comma cells @ [10])) = [join_comma cells]"
    by (intro str_lines_csv) simp_all
  moreover have "split_on 44 (join_comma cells) = cells"
    using assms(2,5) by (intro split_on_join) simp_all
  moreover have "sublist [39, lead] (header @ 10 # join_comma cells @ [10])"
    using sublist_join [OF assms(6,7)] by (auto intro: sublist_parts)
  ultimately show ?thesis using assms(5) by (simp add: cells_guarded_def)
qed

lemma to_string_local:
  assumes "quoter_ok q" "\<forall>l \<in> set ls. wf_local l"
  shows "to_string (render_local q vec_put ls fmt) =
    Some (format_text local_csv_header local_text local_jsonl (local_csv q) fmt ls)"
proof -
  have "scalars (format_text local_csv_header local_text local_jsonl (local_csv q) fmt ls)"
    using assms by (intro scalars_format_text) (simp_all add: scalars_local_lines local_csv_header_def)
  then show ?thesis by (simp add: to_string_def render_vec from_utf8_encode)
qed

lemma to_string_session:
  assumes "quoter_ok q" "\<forall>s \<in> set ss. wf_session s"
  shows "to_string (render_session q vec_put ss fmt) =
    Some (format_text session_csv_header session_text session_jsonl (session_csv q) fmt ss)"
proof -
  have "scalars (format_text session_csv_header session_text session_jsonl (session_csv q) fmt ss)"
    using assms by (intro scalars_format_text) (simp_all add: scalars_session_lines session_csv_header_def)
  then show ?thesis by (simp add: to_string_def render_vec from_utf8_encode)
qed

lemma to_string_raw:
  assumes "quoter_ok q"
  shows "to_string (render_raw q vec_put rs fmt) =
    Some (format_text raw_csv_header raw_text raw_jsonl (raw_csv q) fmt rs)"
proof -
  have "scalars (format_text raw_csv_header raw_text raw_jsonl (raw_csv q) fmt rs)"
    using assms by (intro scalars_format_text) (simp_all add: scalars_raw_lines raw_csv_header_def)
  then show ?thesis by (simp add: to_string_def render_vec from_utf8_encode)
qed

lemma wf_sv [simp]: "wf_value (sv t) \<longleftrightarrow> scalars t"
  by (simp add: sv_def wf_value.simps)

lemma payload_chars:
  "set (formula_payload lead) \<inter> {10, 44} = (if lead = 10 \<or> lead = 44 then {lead} else {})"
  "scalars (formula_payload lead) \<longleftrightarrow> is_scalar lead"
  by (auto simp: formula_payload_def lit_def scalars_def)

lemma lead_scalar: "lead \<in> {61, 43, 45, 64} \<Longrightarrow> is_scalar lead \<and> lead \<noteq> 10 \<and> lead \<noteq> 44"
  by (auto simp: is_scalar_def)

text \<open>A cell that went through the quoter: on one line, in one cell, and inert.\<close>

lemma quoted_cell:
  assumes "apostrophe_quoter q" "lead \<in> {61, 43, 45, 64}" "10 \<notin> set s" "44 \<notin> set s"
  shows "10 \<notin> set (q s) \<and> 44 \<notin> set (q s) \<and> \<not> prefix [lead] (q s)"
  using quoter_chars [OF assms(1), of s] quoter_safe [OF assms(1,2), of s] assms(3,4) by auto

lemma csv_local_neutralizes_holds:
  assumes q: "apostrophe_quoter q"
  shows "csv_local_neutralizes q"
  unfolding csv_local_neutralizes_def Let_def
proof (intro ballI)
  fix lead :: nat
  assume "lead \<in> set [61, 43, 45, 64]"
  then have lead: "lead \<in> {61, 43, 45, 64}" by simp
  let ?p = "formula_payload lead" and ?o = "lead # lit ''HYPERLINK('' @ [34] @ lit ''http://evil'' @ [34] @ lit '')''"
  have chars: "10 \<notin> set ?p" "44 \<notin> set ?p" "10 \<notin> set ?o" "44 \<notin> set ?o"
    using lead by (auto simp: formula_payload_def lit_def)
  have row: "cells_guarded lead (local_csv_header @ 10 #
      local_csv q (Local_Data ?o (sv ?p) (sv ?p) 1 False) @ [10])"
    unfolding local_csv.simps
  proof (rule one_row_guarded)
    show "sublist [39, lead] (q ?p)" unfolding formula_payload_def by (rule quoter_formula [OF q lead])
    show "10 \<notin> set local_csv_header" by (simp add: local_csv_header_def lit_def)
  qed (use lead quoted_cell [OF q lead chars(1,2)] quoted_cell [OF q lead chars(3,4)] in
      \<open>auto simp: sv_def lit_def show_bool_def show_u64_def dec.simps\<close>)
  have "to_string (render_local q vec_put [Local_Data ?o (sv ?p) (sv ?p) 1 False] Csv) =
      Some (local_csv_header @ 10 # local_csv q (Local_Data ?o (sv ?p) (sv ?p) 1 False) @ [10])"
    using to_string_local [OF apostrophe_quoter_ok [OF q], of "[Local_Data ?o (sv ?p) (sv ?p) 1 False]" Csv]
      lead_scalar [OF lead] by (simp add: format_text_def payload_chars is_scalar_def)
  then show "output_test (to_string (render_local q vec_put [Local_Data ?o (sv ?p) (sv ?p) 1 False] Csv))
      (cells_guarded lead)"
    using row by (simp add: output_test_def)
qed

lemma csv_session_neutralizes_holds:
  assumes q: "apostrophe_quoter q"
  shows "csv_session_neutralizes q"
  unfolding csv_session_neutralizes_def Let_def
proof (intro ballI)
  fix lead :: nat
  assume "lead \<in> set [61, 43, 45, 64]"
  then have lead: "lead \<in> {61, 43, 45, 64}" by simp
  let ?p = "formula_payload lead"
  let ?r = "Session_Map (lit ''7'') (Some ?p) ?p (sv ?p) 1 False"
  have chars: "10 \<notin> set ?p" "44 \<notin> set ?p" "10 \<notin> set (lit ''7'')" "44 \<notin> set (lit ''7'')"
    using lead by (auto simp: formula_payload_def lit_def)
  have row: "cells_guarded lead (session_csv_header @ 10 # session_csv q ?r @ [10])"
    unfolding session_csv.simps
  proof (rule one_row_guarded)
    show "sublist [39, lead] (q ?p)" unfolding formula_payload_def by (rule quoter_formula [OF q lead])
    show "10 \<notin> set session_csv_header" by (simp add: session_csv_header_def lit_def)
  qed (use lead quoted_cell [OF q lead chars(1,2)] quoted_cell [OF q lead chars(3,4)] in
      \<open>auto simp: sv_def lit_def show_bool_def show_u64_def dec.simps\<close>)
  have "to_string (render_session q vec_put [?r] Csv) =
      Some (session_csv_header @ 10 # session_csv q ?r @ [10])"
    using to_string_session [OF apostrophe_quoter_ok [OF q], of "[?r]" Csv]
      lead_scalar [OF lead] by (simp add: format_text_def payload_chars)
  then show "output_test (to_string (render_session q vec_put [?r] Csv)) (cells_guarded lead)"
    using row by (simp add: output_test_def)
qed

section \<open>Every variant in every format\<close>

lemma sublist_format:
  assumes "r \<in> set rs" "sublist n (txt r)" "sublist n (jsonl r)" "sublist n (csv r)"
  shows "sublist n (format_text header txt jsonl csv fmt rs)"
proof -
  have "sublist n (output_of line rs)" if "sublist n (line r)" for line
    using assms(1) that by (induction rs) (auto intro: sublist_parts)
  with assms show ?thesis by (cases fmt) (auto simp: format_text_def intro: sublist_parts)
qed

lemmas line_eval = lit_def sv_def hex_def hex_digit_def hex_fixed_numeral show_u64_def dec.simps
  show_bool_def oneline_def json_object_def json_member_def json_string_def json_char_def
  sublist_Cons_right

lemma raw_every_format_holds:
  assumes q: "apostrophe_quoter q"
  shows "raw_every_format q"
proof -
  let ?r = "\<lparr>rec_key = [0x6B], rec_value = [0x76], rec_seq = 1, rec_deleted = True,
    rec_origin = Path [0x30, 0x30, 0x30, 0x30, 0x30, 0x35, 0x2E, 0x6C, 0x64, 0x62]\<rparr> :: record_t"
  have "sublist n (format_text raw_csv_header raw_text raw_jsonl (raw_csv q) fmt [?r])"
    if "n = lit ''6b'' \<or> n = lit ''76''" for n fmt
    by (rule disjE [OF that]; rule sublist_format [of ?r])
      (simp_all add: raw_text_def raw_jsonl_def raw_csv_def line_eval sublist_parts(1,2))
  then show ?thesis
    by (simp add: raw_every_format_def output_test_def to_string_raw [OF apostrophe_quoter_ok [OF q]])
qed

lemma local_every_variant_holds:
  assumes q: "apostrophe_quoter q"
  shows "local_every_variant q"
proof -
  let ?meta = "Local_Meta (lit ''https://o'') 42 (Some 4096) 1 False"
    and ?meta2 = "Local_Meta (lit ''https://o2'') 7 None 2 True"
    and ?data = "Local_Data (lit ''https://o'') (sv (lit ''the'' @ [9] @ lit ''me'')) (sv (lit ''dark'')) 3 False"
    and ?other = "Local_Other [0x56, 0x45, 0x52, 0x53, 0x49, 0x4F, 0x4E] 4 False"
  let ?rs = "[?meta, ?meta2, ?data, ?other]"
  let ?out = "format_text local_csv_header local_text local_jsonl (local_csv q)"
  have "sublist (lit ''4096'') (?out fmt ?rs)" for fmt
    by (rule sublist_format [of ?meta]) (simp_all add: line_eval sublist_parts(1,2))
  moreover have "sublist (lit ''dark'') (?out fmt ?rs)" for fmt
  proof -
    have "sublist (lit ''dark'') (q (lit ''dark''))"
      by (rule quoter_contains [OF q]) (simp_all add: lit_def)
    then show ?thesis by (intro sublist_format [of ?data]) (simp_all add: line_eval sublist_parts(1,2))
  qed
  moreover have "sublist (lit ''56455253494f4e'') (?out fmt ?rs)" for fmt
    by (rule sublist_format [of ?other]) (simp_all add: line_eval)
  ultimately show ?thesis
    by (simp add: local_every_variant_def output_test_def to_string_local [OF apostrophe_quoter_ok [OF q]]
        is_scalar_def)
qed

lemma session_every_variant_holds:
  assumes q: "apostrophe_quoter q"
  shows "session_every_variant q"
proof -
  let ?namespace = "Session_Namespace (lit ''g'') (lit ''https://h'') (lit ''7'') 1 False"
    and ?map = "Session_Map (lit ''7'') (Some (lit ''https://h'')) (lit ''greet'') (sv (lit ''hi'')) 2 False"
    and ?orphan = "Session_Map (lit ''9'') None (lit ''orphan'') (sv (lit ''x'')) 3 False"
    and ?other = "Session_Other [0x77, 0x65, 0x69, 0x72, 0x64] 4 False"
  let ?rs = "[?namespace, ?map, ?orphan, ?other]"
  let ?out = "format_text session_csv_header session_text session_jsonl (session_csv q)"
  have found: "sublist n (q n)" if "34 \<notin> set n" for n
    by (rule quoter_contains [OF q _ that]) simp
  have "sublist (lit ''greet'') (?out fmt ?rs)" for fmt
    using found [of "lit ''greet''"]
    by (intro sublist_format [of ?map]) (simp_all add: line_eval sublist_parts(1,2))
  moreover have "sublist (lit ''orphan'') (?out fmt ?rs)" for fmt
    using found [of "lit ''orphan''"]
    by (intro sublist_format [of ?orphan]) (simp_all add: line_eval sublist_parts(1,2))
  moreover have "sublist (lit ''77656972'') (?out fmt ?rs)" for fmt
    by (rule sublist_format [of ?other]) (simp_all add: line_eval)
  ultimately show ?thesis
    by (simp add: session_every_variant_def output_test_def
        to_string_session [OF apostrophe_quoter_ok [OF q]])
qed

section \<open>Errors of the tool\<close>

lemma clierror_display_and_source_holds:
  assumes "list_dir FS (Path [0x2F, 0x6E, 0x6F, 0x2F, 0x73, 0x75, 0x63, 0x68, 0x2F, 0x64, 0x69, 0x72]) = Inl e"
  shows "clierror_display_and_source E FS"
proof -
  have "sublist n (lit (a @ b) @ x)" if "n = lit a" for n a b x
    by (simp add: that lit_def sublist_append_rightI sublist_parts)
  from this [OF refl, of "''reading LevelDB directory''" "'': ''"] this [OF refl, of "''writing output''" "'': ''"]
  show ?thesis using assms by (simp add: clierror_display_and_source_def read_dir_def)
qed

end
