(* ===== verification/Reader_Theorems.thy ===== *)
theory Reader_Theorems
  imports Table_Theorems Reader_Lib
begin

text \<open>
  The theorems on reading a directory, applied to a directory of a log and a table.
\<close>

definition sample_dir :: path where
  "sample_dir = Path [0x64]"

definition log_name :: bytes where
  "log_name = [0x30, 0x2E, 0x6C, 0x6F, 0x67]"

definition table_name :: bytes where
  "table_name = [0x31, 0x2E, 0x4C, 0x44, 0x42]"

definition table_path :: path where
  "table_path = Path (0x64 # 0x2F # table_name)"

definition sample_fs :: "bytes list \<Rightarrow> bytes \<Rightarrow> fs_env" where
  "sample_fs names log =
     \<lparr>list_dir = (\<lambda>d. if d = sample_dir then Inr (map Inr names) else Inl (Io_Error (lit ''not found''))),
      read_file = (\<lambda>p. if p = sample_path then Inr log
        else if p = table_path then Inr sample_table else Inl (Io_Error (lit ''not found'')))\<rparr>"

lemma sample_fs_simps [simp]:
  "list_dir (sample_fs names log) sample_dir = Inr (map Inr names)"
  "read_file (sample_fs names log) p = (if p = sample_path then Inr log
     else if p = table_path then Inr sample_table else Inl (Io_Error (lit ''not found'')))"
  by (simp_all add: sample_fs_def)

lemma sample_files_ok: "buffer_ok ref_env log \<Longrightarrow> files_ok ref_env (sample_fs names log)"
  by (simp add: files_ok_def sample_table_ok)

lemma ref_core: "core_ok ref_env"
  by (simp add: core_ok_def ref_facts)

lemma sample_paths: "entry_path sample_dir log_name = sample_path"
  "entry_path sample_dir table_name = table_path" "sample_path \<noteq> table_path"
  by (simp_all add: entry_path_def sample_dir_def log_name_def table_name_def sample_path_def table_path_def)

lemma sample_kinds: "file_kind sample_path = Log_File" "file_kind table_path = Table_File"
  by (simp_all add: file_kind_def lower_extension_def path_extension_def file_name_def components_def part_component_def
      List.map_filter_simps sample_path_def table_path_def
      table_name_def from_utf8_ascii to_ascii_lowercase_def lit_def Let_def)

lemma sample_file_records:
  "file_records ref_env (sample_fs names sample_log) sample_path = sample_records"
  by (simp add: file_records_def sample_kinds salvage_def parse_log_bytes_def sample_parse)

lemma sample_read_dir:
  "read_dir ref_env (sample_fs [log_name] sample_log) sample_dir = Ok sample_records"
  using read_dir_names [OF ref_core sample_files_ok [OF sample_log_ok] sample_fs_simps(1)]
  by (simp add: sample_paths sample_file_records)

text \<open>
  C17: a directory that can be listed is read in full: the result is the concatenation, in the
  order of the paths, of what the table parser and the log parser return for the files with
  their extensions. A file that cannot be read or parsed contributes nothing and stops nothing.
\<close>

theorem read_dir_result:
  assumes "core_ok E" "files_ok E fs" "list_dir fs dir = Inr (map Inr names)"
  shows "read_dir E fs dir =
    Ok (concat (map (file_records E fs) (sort (map (entry_path dir) names))))"
  using assms by (rule read_dir_names)

theorem read_dir_result_witness:
  "read_dir ref_env (sample_fs [[0x4D], log_name] sample_log) sample_dir = Ok sample_records"
proof -
  have "entry_path sample_dir [0x4D] \<noteq> sample_path" "entry_path sample_dir [0x4D] \<noteq> table_path"
    by (simp_all add: entry_path_def sample_dir_def sample_path_def table_path_def table_name_def)
  then have "file_records ref_env (sample_fs [[0x4D], log_name] sample_log) (entry_path sample_dir [0x4D]) = []"
    by (simp add: file_records_def)
  then show ?thesis
    using read_dir_result [OF ref_core sample_files_ok [OF sample_log_ok] sample_fs_simps(1)]
    by (simp add: sample_paths sample_file_records insort_key.simps)
qed

text \<open>
  C18: the listing itself fails loudly. The only error is an I/O error on the directory, and
  it is returned exactly when listing fails or some entry of the listing fails.
\<close>

theorem read_dir_loud:
  assumes "core_ok E" "files_ok E fs"
  shows "read_dir E fs dir = Err err \<longleftrightarrow>
    (\<exists>e. err = Io dir e \<and> (list_dir fs dir = Inl e \<or>
       (\<exists>names rest. list_dir fs dir = Inr (map Inr names @ Inl e # rest))))"
  using assms by (rule read_dir_error)

theorem read_dir_loud_witness:
  "read_dir ref_env (sample_fs [] []) sample_path = Err (Io sample_path (Io_Error (lit ''not found'')))"
proof -
  have "list_dir (sample_fs [] []) sample_path = Inl (Io_Error (lit ''not found''))"
    by (simp add: sample_fs_def sample_path_def sample_dir_def)
  then show ?thesis using read_dir_loud [OF ref_core sample_files_ok, of "[]" "[]" sample_path]
    by (simp add: ref_buffer)
qed

text \<open>
  C19: the order in which the file system enumerates its entries does not matter.
\<close>

theorem read_dir_deterministic:
  assumes "core_ok E" "files_ok E fs" "files_ok E fs'" "read_file fs' = read_file fs"
    and "list_dir fs dir = Inr (map Inr names)" "list_dir fs' dir = Inr (map Inr names')"
    and "mset names' = mset names"
  shows "read_dir E fs' dir = read_dir E fs dir"
  using assms by (rule read_dir_order)

theorem read_dir_deterministic_witness:
  "read_dir ref_env (sample_fs [table_name, log_name] sample_log) sample_dir =
   read_dir ref_env (sample_fs [log_name, table_name] sample_log) sample_dir"
  by (rule read_dir_deterministic [OF ref_core _ _ _ sample_fs_simps(1) sample_fs_simps(1)])
    (simp_all add: sample_files_ok sample_log_ok fun_eq_iff)

text \<open>
  C20: the stable sequence. Rust orders paths by their components; for the names a directory can
  hold this is the byte order of the names, so the records come file by file in the order of
  the file names, however the directory itself is spelled.
\<close>

theorem read_dir_by_name:
  assumes "core_ok E" "files_ok E fs" "list_dir fs dir = Inr (map Inr names)"
    and "\<forall>name \<in> set names. proper_name name"
  shows "read_dir E fs dir =
    Ok (concat (map (\<lambda>name. file_records E fs (entry_path dir name)) (sort names)))"
  using read_dir_names [OF assms(1-3)] sort_entry_paths [OF assms(4), of dir] by (simp add: comp_def)

theorem read_dir_by_name_witness:
  "read_dir ref_env (sample_fs [table_name, log_name] sample_log) sample_dir =
     Ok (sample_records @ file_records ref_env (sample_fs [table_name, log_name] sample_log) table_path)"
proof -
  have names: "\<forall>name \<in> set [table_name, log_name]. proper_name name"
    by (simp add: proper_name_def table_name_def log_name_def)
  have "sort [table_name, log_name] = [log_name, table_name]" by (simp add: table_name_def log_name_def)
  with read_dir_by_name [OF ref_core sample_files_ok [OF sample_log_ok] sample_fs_simps(1) names]
  show ?thesis by (simp add: sample_paths sample_file_records)
qed

text \<open>
  C21: provenance and damage. Every record names as its origin a listed file with a table or log
  extension; the lock file, the manifest and files of other kinds are never parsed. And damage
  is confined to its file: whatever happens to the file \<open>p\<close>, the records that come from other
  files, and their order, stay the same.
\<close>

theorem read_dir_damage_confined:
  assumes "core_ok E" "files_ok E fs" "files_ok E fs'"
    and "\<And>q. q \<noteq> p \<Longrightarrow> read_file fs' q = read_file fs q"
    and "list_dir fs dir = Inr (map Inr names)" "list_dir fs' dir = list_dir fs dir"
    and "read_dir E fs dir = Ok rs" "read_dir E fs' dir = Ok rs'"
  shows "filter (\<lambda>r. rec_origin r \<noteq> p) rs' = filter (\<lambda>r. rec_origin r \<noteq> p) rs \<and>
    (\<forall>r \<in> set rs. rec_origin r \<in> entry_path dir ` set names \<and> file_kind (rec_origin r) \<noteq> Other_File)"
  using read_dir_confined [OF assms] read_dir_origin [OF assms(1,2,5,7)] by blast

theorem read_dir_damage_confined_witness:
  "\<exists>rs rs'. read_dir ref_env (sample_fs [log_name, table_name] sample_log) sample_dir = Ok rs \<and>
     read_dir ref_env (sample_fs [log_name, table_name] (replicate 99 0xFF)) sample_dir = Ok rs' \<and>
     filter (\<lambda>r. rec_origin r \<noteq> sample_path) rs' = filter (\<lambda>r. rec_origin r \<noteq> sample_path) rs"
proof -
  have ok: "files_ok ref_env (sample_fs [log_name, table_name] sample_log)"
    "files_ok ref_env (sample_fs [log_name, table_name] (replicate 99 0xFF))"
    by (rule sample_files_ok, simp add: sample_log_ok ref_buffer)+
  obtain rs rs' where rs:
    "read_dir ref_env (sample_fs [log_name, table_name] sample_log) sample_dir = Ok rs"
    "read_dir ref_env (sample_fs [log_name, table_name] (replicate 99 0xFF)) sample_dir = Ok rs'"
    using read_dir_names [OF ref_core ok(1) sample_fs_simps(1)]
      read_dir_names [OF ref_core ok(2) sample_fs_simps(1)] by blast
  have "filter (\<lambda>r. rec_origin r \<noteq> sample_path) rs' = filter (\<lambda>r. rec_origin r \<noteq> sample_path) rs"
    using read_dir_damage_confined [OF ref_core ok _ sample_fs_simps(1) _ rs, of sample_path] by simp
  with rs show ?thesis by blast
qed

end
