(* ===== verification/Storage_Theorems.thy ===== *)
theory Storage_Theorems
  imports Local_Storage Session_Storage Reader_Theorems
begin

text \<open>
  The theorems on the web-storage decoders, applied to entries as Chrome writes them.
\<close>

section \<open>Records\<close>

text \<open>
  A live Local Storage entry is read back exactly: its origin, its script key and its value
  under their encodings, and nothing is marked lossy.
\<close>

theorem local_entry_read:
  assumes "latin1_text origin" "0 \<notin> set origin" "typed_text k" "typed_text v"
    and "rec_key r = data_key origin k" "rec_value r = type_encode v" "\<not> rec_deleted r"
  shows "\<exists>sk val. local_of pb r = Local_Data origin sk val (rec_seq r) False \<and>
    clean sk = Some k \<and> clean val = Some v"
  using local_of_entry [OF assms] by blast

definition sample_entry :: record_t where
  "sample_entry = \<lparr>rec_key = data_key (lit ''https://a'') (Latin1, lit ''k''),
     rec_value = type_encode (Utf16Le, [0x4E01]), rec_seq = 3, rec_deleted = False, rec_origin = sample_path\<rparr>"

theorem local_entry_read_witness:
  "\<exists>sk val. local_of (\<lambda>_. None) sample_entry = Local_Data (lit ''https://a'') sk val 3 False \<and>
     clean sk = Some (Latin1, lit ''k'') \<and> clean val = Some (Utf16Le, [0x4E01])"
  using local_entry_read [of "lit ''https://a''" "(Latin1, lit ''k'')" "(Utf16Le, [0x4E01])" sample_entry]
  by (simp add: sample_entry_def latin1_text_def lit_def)

text \<open>
  Classification is by the key alone. A record is an entry exactly when its key is an
  underscore followed by bytes among which there is a NUL, tombstone or not, whatever its value.
\<close>

theorem local_entry_iff:
  "is_Local_Data (local_of pb r) \<longleftrightarrow> (\<exists>body. rec_key r = 0x5F # body \<and> 0 \<in> set body)"
  by (rule local_of_is_data)

text \<open>
  C28: both decoders return one record for each raw record, in order, with its sequence number
  and tombstone flag, and the user key can be read off the decoded record: no version, no
  tombstone and no malformed record is dropped, merged or altered.
\<close>

theorem decoders_keep_records:
  "map local_seq (decode_local_storage_records pb rs) = map rec_seq rs \<and>
   map local_deleted (decode_local_storage_records pb rs) = map rec_deleted rs \<and>
   map local_key (decode_local_storage_records pb rs) = map rec_key rs \<and>
   map session_seq (decode_session_storage_records rs) = map rec_seq rs \<and>
   map session_deleted (decode_session_storage_records rs) = map rec_deleted rs \<and>
   map session_key (decode_session_storage_records rs) = map rec_key rs"
  unfolding decode_local_storage_records_def decode_session_storage_records_def
  using local_decoder.decode_seq local_decoder.decode_deleted local_decoder.decode_key
    session_decoder.decode_seq session_decoder.decode_deleted session_decoder.decode_key by blast

text \<open>
  C29: a map entry is attributed to the host of the first live namespace record that names its
  map id, wherever the two stand in the listing.
\<close>

theorem session_entry_joined:
  assumes "recs = before @ ns # after" "r \<in> set recs"
    and "scalars g" "scalars host" "dash \<notin> set g"
    and "rec_key ns = namespace_key g host" "rec_value ns = utf8_encode mid" "\<not> rec_deleted ns"
    and "\<forall>r' \<in> set before. \<forall>h. host_link r' \<noteq> Some (mid, h)"
    and "scalars mid" "scalars k" "dash \<notin> set mid" "rec_key r = map_key mid k"
  shows "Session_Map mid (Some host) k
      (if rec_deleted r then empty_value else decode_session_value (rec_value r))
      (rec_seq r) (rec_deleted r) \<in> set (session_decode recs)"
  using assms by (rule session_join)

definition sample_namespace :: record_t where
  "sample_namespace = \<lparr>rec_key = namespace_key (lit ''0f'') (lit ''a-b.example''), rec_value = utf8_encode (lit ''7''),
     rec_seq = 2, rec_deleted = False, rec_origin = sample_path\<rparr>"

definition sample_map :: record_t where
  "sample_map = \<lparr>rec_key = map_key (lit ''7'') (lit ''x-y''), rec_value = utf16le_encode (lit ''v''),
     rec_seq = 4, rec_deleted = True, rec_origin = sample_path\<rparr>"

theorem session_entry_joined_witness:
  "Session_Map (lit ''7'') (Some (lit ''a-b.example'')) (lit ''x-y'') empty_value 4 True
     \<in> set (session_decode [sample_map, sample_namespace])"
proof -
  have "host_link sample_map = None"
    by (simp add: host_link_def sample_map_def)
  then show ?thesis
    using session_entry_joined [of "[sample_map, sample_namespace]" "[sample_map]" sample_namespace "[]"
        sample_map "lit ''0f''" "lit ''a-b.example''" "lit ''7''" "lit ''x-y''"]
    by (simp add: sample_map_def sample_namespace_def) (simp add: lit_def)
qed

text \<open>
  C30: and no host is made up: an attributed host stands in the key of a live namespace record
  whose value is the map id.
\<close>

theorem session_host_provenance:
  assumes "Session_Map mid (Some host) k val seq del \<in> set (session_decode recs)"
  shows "\<exists>r \<in> set recs. host_link r = Some (mid, host)"
  using assms by (rule session_host_sound)

theorem session_host_provenance_witness:
  "\<exists>r \<in> set [sample_map, sample_namespace]. host_link r = Some (lit ''7'', lit ''a-b.example'')"
proof -
  have "host_link sample_map = None" by (simp add: host_link_def sample_map_def)
  then have "Session_Map (lit ''7'') (Some (lit ''a-b.example'')) (lit ''x-y'') empty_value 4 True
      \<in> set (session_decode [sample_map, sample_namespace])"
    using session_join [of "[sample_map, sample_namespace]" "[sample_map]" sample_namespace "[]"
        sample_map "lit ''0f''" "lit ''a-b.example''" "lit ''7''" "lit ''x-y''"]
    by (simp add: sample_map_def sample_namespace_def) (simp add: lit_def)
  from session_host_provenance [OF this] show ?thesis .
qed

section \<open>Values\<close>

text \<open>
  C31: the type-prefixed decoder is exact. It reports an encoding and a text without the lossy
  flag if and only if the bytes are the encoding of that text: clean values round-trip, and
  whatever does not round-trip is flagged.
\<close>

theorem typed_value_exact:
  "clean (decode_type_prefixed raw) = Some x \<longleftrightarrow> typed_text x \<and> raw = type_encode x"
  by (rule typed.dec_iff)

text \<open>
  C32: on any bytes both decoders keep the bytes verbatim and produce well-formed text.
\<close>

theorem values_keep_raw:
  "sv_raw (decode_type_prefixed raw) = raw \<and> sv_raw (decode_session_value raw) = raw \<and>
   scalars (sv_text (decode_type_prefixed raw)) \<and> scalars (sv_text (decode_session_value raw))"
  by (simp add: decode_type_prefixed_raw decode_session_value_raw decode_type_prefixed_scalars
      decode_session_value_scalars)

text \<open>
  C38: when an unprefixed session value is read exactly. For every text that is not empty, written
  as plain UTF-16-LE, the decoder reports that text under that encoding without the lossy flag
  if and only if the first byte is neither of the two type prefixes.
\<close>

theorem session_value_exact:
  assumes "scalars s" "s \<noteq> []"
  shows "clean (decode_session_value (utf16le_encode s)) = Some (Utf16Le, s) \<longleftrightarrow>
    hd (utf16le_encode s) \<noteq> 0 \<and> hd (utf16le_encode s) \<noteq> 1"
  using assms by (rule decode_session_value_exact)

theorem session_value_exact_witness:
  "clean (decode_session_value (utf16le_encode [0x41, 0x1F600])) = Some (Utf16Le, [0x41, 0x1F600]) \<and>
   clean (decode_session_value (utf16le_encode [0x100])) \<noteq> Some (Utf16Le, [0x100])"
  using session_value_exact [of "[0x41, 0x1F600]"] session_value_exact [of "[0x100]"]
  by (simp add: is_scalar_def utf16le_encode_def utf16_char_def unit_of_def byte_of_def)

text \<open>
  C39: the defensive prefix test makes the others ambiguous. An unprefixed value whose first byte
  is \<open>0x01\<close>, the low byte of its first UTF-16 unit, is read as Latin-1, as another text than the
  one written, and not marked lossy.
\<close>

theorem session_value_ambiguous:
  assumes "scalars s" "s \<noteq> []" "hd (utf16le_encode s) = 1"
  shows "decode_session_value (utf16le_encode s) =
      \<lparr>sv_text = latin1 (tl (utf16le_encode s)), sv_raw = utf16le_encode s,
       sv_encoding = Latin1, sv_lossy = False\<rparr> \<and>
    latin1 (tl (utf16le_encode s)) \<noteq> s"
  using assms by (rule decode_session_value_ambiguous)

theorem session_value_ambiguous_witness:
  "sv_text (decode_session_value (utf16le_encode [0xFF01])) = [0xFF] \<and>
   \<not> sv_lossy (decode_session_value (utf16le_encode [0xFF01]))"
  using session_value_ambiguous [of "[0xFF01]"]
  by (simp add: is_scalar_def utf16le_encode_def utf16_char_def unit_of_def byte_of_def latin1_def)

end
