(* ===== verification/Cli_Theorems.thy ===== *)
theory Cli_Theorems
  imports Render_Tests Storage_Theorems
begin

text \<open>
  The theorems on the command line tool and its output formats.
\<close>

definition sample_cli :: "(nat \<times> rstring) cli_env" where
  "sample_cli = \<lparr>core = ref_env, fs = sample_fs [log_name] sample_log, protobuf = (\<lambda>_. None),
     quoter = (\<lambda>s. s), put = bounded_put, flush = (\<lambda>w. (None, w))\<rparr>"

lemma sample_cli_simps [simp]:
  "core sample_cli = ref_env" "fs sample_cli = sample_fs [log_name] sample_log"
  "protobuf sample_cli = (\<lambda>_. None)" "quoter sample_cli = (\<lambda>s. s)" "put sample_cli = bounded_put"
  by (simp_all add: sample_cli_def)

text \<open>
  C22: what a run prints. For any writer that keeps the contract of \<open>write_all\<close>, a run over a
  directory that can be listed either succeeds and has appended exactly the rendering of all
  records of all files, or reports the writer's error and has appended a prefix of it.
\<close>

theorem run_output:
  assumes "core_ok (core C)" "files_ok (core C) (fs C)" "writer_ok (put C) contents"
    and "list_dir (fs C) dir = Inr (map Inr names)"
    and "recs = concat (map (file_records (core C) (fs C)) (sort (map (entry_path dir) names)))"
  shows "(\<exists>w'. run C dir m fmt w = (Ok (), w') \<and>
      contents w' = contents w @ dump_text (protobuf C) (quoter C) m fmt recs) \<or>
    (\<exists>e t w'. run C dir m fmt w = (Err (Write e), w') \<and> contents w' = contents w @ t \<and>
      prefix t (dump_text (protobuf C) (quoter C) m fmt recs))"
  using assms by (rule run_names)

theorem run_output_witness:
  "(\<exists>w'. run sample_cli sample_dir Mode_Raw Jsonl (50, []) = (Ok (), w') \<and>
      snd w' = dump_text (\<lambda>_. None) (\<lambda>s. s) Mode_Raw Jsonl sample_records) \<or>
   (\<exists>e t w'. run sample_cli sample_dir Mode_Raw Jsonl (50, []) = (Err (Write e), w') \<and> snd w' = t \<and>
      prefix t (dump_text (\<lambda>_. None) (\<lambda>s. s) Mode_Raw Jsonl sample_records))"
proof -
  have env: "core_ok (core sample_cli)" "files_ok (core sample_cli) (fs sample_cli)"
    "writer_ok (put sample_cli) snd" "list_dir (fs sample_cli) sample_dir = Inr (map Inr [log_name])"
    by (simp_all add: ref_core sample_files_ok sample_log_ok bounded_writer)
  have recs: "sample_records = concat (map (file_records (core sample_cli) (fs sample_cli))
      (sort (map (entry_path sample_dir) [log_name])))"
    by (simp add: sample_paths sample_file_records)
  from run_output [OF env recs, of Mode_Raw Jsonl "(50, [])"] show ?thesis
    unfolding sample_cli_simps snd_conv append_Nil .
qed

text \<open>
  C23: the process always ends with an exit code: never a panic, on any directory content and
  any writer. It is the failure code exactly when reading or writing failed, and exactly then
  a message goes to standard error.
\<close>

theorem main_exit:
  assumes "core_ok (core C)" "files_ok (core C) (fs C)"
  shows "\<exists>code err w'. main C (Dump dir m fmt) w = (Ok (code, err), w') \<and>
    (code = FAILURE \<longleftrightarrow> (\<exists>e. fst (run C dir m fmt w) = Err e)) \<and>
    (code = SUCCESS \<longleftrightarrow> err = [])"
  using assms by (rule main_failure)

theorem main_exit_witness:
  "\<exists>code err w'. main sample_cli (Dump sample_path Mode_Local Csv) (9, []) = (Ok (code, err), w') \<and>
    (code = FAILURE \<longleftrightarrow> (\<exists>e. fst (run sample_cli sample_path Mode_Local Csv (9, [])) = Err e)) \<and>
    (code = SUCCESS \<longleftrightarrow> err = [])"
  by (rule main_exit) (simp_all add: ref_core sample_files_ok sample_log_ok)

text \<open>
  C24: the JSONL dump of raw records is faithful. Split at line breaks and read back by a JSON
  reader, it gives for each record, in order, exactly its key, value, sequence number and
  tombstone flag.
\<close>

theorem jsonl_raw_roundtrip:
  "map raw_of_line (text_lines (dump_text pb q Mode_Raw Jsonl recs)) =
     map (\<lambda>r. Some (rec_key r, rec_value r, rec_seq r, rec_deleted r)) recs"
  by (rule jsonl_dump_read(2))

text \<open>
  C25: the JSONL line of a Local Storage entry is one line, and a JSON reader finds in it the
  origin and script key as text and the raw bytes of the value as hex.
\<close>

theorem jsonl_local_entry:
  assumes "rec_key r = 0x5F # o_raw @ 0 # k_raw" "0 \<notin> set o_raw"
  shows "\<exists>ms. read_object (local_jsonl (local_of pb r)) = Some ms \<and> 10 \<notin> set (local_jsonl (local_of pb r)) \<and>
    map_of ms (lit ''origin'') = Some (JString (latin1 o_raw)) \<and>
    map_of ms (lit ''key'') = Some (JString (sv_text (decode_type_prefixed k_raw))) \<and>
    map_of ms (lit ''value_raw_hex'') = Some (JString (hex (if rec_deleted r then [] else rec_value r)))"
  using local_lines.read_line [of "local_of pb r"] local_lines.line_printable [of 10 "local_of pb r"]
  by (auto simp: local_of_data_key [OF assms] lit_def decode_type_prefixed_raw)

theorem jsonl_local_entry_witness:
  "\<exists>ms. read_object (local_jsonl (local_of (\<lambda>_. None) sample_entry)) = Some ms \<and>
    map_of ms (lit ''value_raw_hex'') = Some (JString (hex (type_encode (Utf16Le, [0x4E01]))))"
proof -
  have key: "rec_key sample_entry = 0x5F # latin1_encode (lit ''https://a'') @ 0 # type_encode (Latin1, lit ''k'')"
    by (simp add: sample_entry_def data_key_def)
  have nul: "0 \<notin> set (latin1_encode (lit ''https://a''))"
    by (simp add: latin1_encode_def lit_def byte_of_def)
  have val: "(if rec_deleted sample_entry then [] else rec_value sample_entry) =
      type_encode (Utf16Le, [0x4E01])"
    by (simp add: sample_entry_def)
  from jsonl_local_entry [OF key nul, of "\<lambda>_. None"] show ?thesis unfolding val by blast
qed

section \<open>From the directory to the dump\<close>

text \<open>
  C7: the whole path, from the bytes on disk to the bytes on standard output. A directory holds
  write-ahead logs of some batches and tables of some entries, in any number, among files of
  other kinds and files that cannot be read. There is a text that reads back, line by line, as
  the records those files were written from, in the order of the paths: a raw JSONL run appends
  all of it and succeeds, or reports the writer's error and has appended a prefix of it.
\<close>

theorem dump_end_to_end:
  assumes "crates_ok (core C) compress" "files_ok (core C) (fs C)" "writer_ok (put C) contents"
    and "list_dir (fs C) dir = Inr (map Inr names)"
    and "\<And>name. name \<in> set names \<Longrightarrow>
      contributes (core C) compress (fs C) (entry_path dir name) (content (entry_path dir name))"
  shows "\<exists>t. map raw_of_line (text_lines t) = map (\<lambda>r. Some (rec_key r, rec_value r, rec_seq r, rec_deleted r))
        (concat (map content (sort (map (entry_path dir) names)))) \<and>
    ((\<exists>w'. run C dir Mode_Raw Jsonl w = (Ok (), w') \<and> contents w' = contents w @ t) \<or>
     (\<exists>w' e s. run C dir Mode_Raw Jsonl w = (Err (Write e), w') \<and> contents w' = contents w @ s \<and> prefix s t))"
  using assms by (rule dump_holds)

definition vec_cli :: "rstring cli_env" where
  "vec_cli = \<lparr>core = ref_env, fs = sample_fs [table_name, log_name] sample_log, protobuf = (\<lambda>_. None),
     quoter = (\<lambda>s. s), put = vec_put, flush = (\<lambda>w. (None, w))\<rparr>"

lemma vec_cli_simps [simp]:
  "core vec_cli = ref_env" "fs vec_cli = sample_fs [table_name, log_name] sample_log" "put vec_cli = vec_put"
  "protobuf vec_cli = (\<lambda>_. None)" "quoter vec_cli = (\<lambda>s. s)"
  by (simp_all add: vec_cli_def)

definition sample_content :: "path \<Rightarrow> record_t list" where
  "sample_content p = (if p = sample_path then sample_records else map (te_record p) sample_entries)"

lemma sample_holds:
  "holds ref_env (\<lambda>d. d) sample_path sample_log sample_records"
  "holds ref_env (\<lambda>d. d) table_path sample_table (map (te_record table_path) sample_entries)"
proof -
  show "holds ref_env (\<lambda>d. d) sample_path sample_log sample_records"
    using holds.log_file [OF sample_kinds(1) sample_counts, of ref_env "\<lambda>d. d" 3]
    by (simp only: sample_log_def [symmetric] sample_op_records)
  show "holds ref_env (\<lambda>d. d) table_path sample_table (map (te_record table_path) sample_entries)"
    using holds.table_file [OF sample_kinds(2) sample_blocks_ok, of "[(0, [0x7A])]" "\<lambda>d. d" ref_env "[]" "handle_at 0 []"]
    by (simp add: sample_table_def [symmetric]) (simp add: sample_blocks_def sample_index_def)
qed

lemma sample_sorted: "sort (map (entry_path sample_dir) [table_name, log_name]) = [sample_path, table_path]"
  by (simp add: sample_paths less_eq_path_def path_key_def)
    (simp add: sample_path_def table_path_def table_name_def components_def part_component_def
      List.map_filter_simps less_component_def less_eq_component_def)

theorem dump_end_to_end_witness:
  "\<exists>w'. run vec_cli sample_dir Mode_Raw Jsonl [] = (Ok (), w') \<and>
     map raw_of_line (text_lines w') =
       [Some ([0x6B], [0x76], 5, False), Some ([0x6B], [], 6, True), Some ([0x61], [], 7, False),
        Some ([0x6B, 0x31], [0x76], 7, False), Some ([0x6B, 0x32], [], 9, True)]"
proof -
  have crates: "crates_ok (core vec_cli) (\<lambda>d. d)" by (simp add: crates_ok_def ref_core ref_facts)
  have files: "files_ok (core vec_cli) (fs vec_cli)" by (simp add: sample_files_ok sample_log_ok)
  have writer: "writer_ok (put vec_cli) id" by (simp add: vec_writer)
  have listing: "list_dir (fs vec_cli) sample_dir = Inr (map Inr [table_name, log_name])" by simp
  have held: "name \<in> set [table_name, log_name] \<Longrightarrow>
      contributes (core vec_cli) (\<lambda>d. d) (fs vec_cli) (entry_path sample_dir name)
        (sample_content (entry_path sample_dir name))" for name
    using sample_holds sample_paths(3) by (auto simp: contributes_def sample_paths sample_content_def)
  obtain recs where "read_dir (core vec_cli) (fs vec_cli) sample_dir = Ok recs"
    using read_dir_names [OF ref_core sample_files_ok [OF sample_log_ok] sample_fs_simps(1)] by simp
  then have "fst (run vec_cli sample_dir Mode_Raw Jsonl []) = Ok ()" by (simp add: run_vec)
  with dump_end_to_end [OF crates files writer listing held, of "[]"] show ?thesis
    unfolding sample_sorted
    by (auto simp: sample_content_def sample_paths(3) [symmetric] sample_records_def sample_entries_def)
qed

text \<open>
  C8: recovery of an entry. Chrome puts an entry of an origin, a script key and a value, under
  their encodings, into a batch of a log or into a table of the directory, and that one file is
  intact. Whatever the other files hold, damaged or not, decoding the directory for Local
  Storage finds the entry: its origin, its key and its value exactly, its sequence number, and
  nothing marked lossy.
\<close>

theorem local_storage_recovered:
  assumes "crates_ok E compress" "files_ok E FS" "list_dir FS dir = Inr (map Inr names)"
    and "name \<in> set names" "read_file FS (entry_path dir name) = Inr buf"
    and "holds E compress (entry_path dir name) buf rs" "r \<in> set rs"
    and "latin1_text origin" "0 \<notin> set origin" "typed_text k" "typed_text v"
      "rec_key r = data_key origin k" "rec_value r = type_encode v" "\<not> rec_deleted r"
  shows "\<exists>ls sk val. decode_local_storage E FS pb dir = Ok ls \<and>
    Local_Data origin sk val (rec_seq r) False \<in> set ls \<and> clean sk = Some k \<and> clean val = Some v"
  using assms by (rule entry_recovered)

definition chrome_batches :: "(u64 \<times> op list) list" where
  "chrome_batches =
     [(9, [Put (data_key (lit ''https://a'') (Latin1, lit ''k'')) (type_encode (Utf16Le, [0x4E01]))])]"

definition chrome_log :: bytes where
  "chrome_log = write_log ref_env 0 (encoded chrome_batches) @ replicate 0 0"

lemma chrome_log_ok: "buffer_ok ref_env chrome_log"
proof -
  have "map length (encoded chrome_batches) = [31]"
    by (simp add: chrome_batches_def encoded_def encode_batch_def length_prefixed_def leb128_as_u64
        data_key_def latin1_encode_def lit_def utf16le_encode_def utf16_char_def units_le_def)
  then obtain b where "encoded chrome_batches = [b]" "length b = 31" by (auto simp: map_eq_Cons_conv)
  then have "length chrome_log = 38"
    by (simp add: chrome_log_def write_record_fits BLOCK_SIZE_def HEADER_SIZE_def)
  then show ?thesis by (simp add: ref_buffer)
qed

lemma chrome_holds: "holds ref_env (\<lambda>d. d) sample_path chrome_log (records_of sample_path chrome_batches)"
proof -
  have "counts_ok chrome_batches" by (simp add: counts_ok_def chrome_batches_def)
  from holds.log_file [OF sample_kinds(1) this, of ref_env "\<lambda>d. d" 0] show ?thesis
    by (simp add: chrome_log_def)
qed

theorem local_storage_recovered_witness:
  "\<exists>ls sk val. decode_local_storage ref_env (sample_fs [log_name, table_name] chrome_log) (\<lambda>_. None) sample_dir = Ok ls \<and>
     Local_Data (lit ''https://a'') sk val 9 False \<in> set ls \<and>
     clean sk = Some (Latin1, lit ''k'') \<and> clean val = Some (Utf16Le, [0x4E01])"
proof -
  let ?fs = "sample_fs [log_name, table_name] chrome_log"
  let ?r = "\<lparr>rec_key = data_key (lit ''https://a'') (Latin1, lit ''k''),
    rec_value = type_encode (Utf16Le, [0x4E01]), rec_seq = 9, rec_deleted = False, rec_origin = sample_path\<rparr> :: record_t"
  have crates: "crates_ok ref_env (\<lambda>d. d)" by (simp add: crates_ok_def ref_core ref_facts)
  have log: "log_name \<in> set [log_name, table_name]"
    "read_file ?fs (entry_path sample_dir log_name) = Inr chrome_log"
    "holds ref_env (\<lambda>d. d) (entry_path sample_dir log_name) chrome_log (records_of sample_path chrome_batches)"
    by (simp_all add: sample_paths chrome_holds)
  have r: "?r \<in> set (records_of sample_path chrome_batches)"
    by (simp add: records_of_def chrome_batches_def op_records_def saturating_add_u64_def as_u64_def)
  have texts: "latin1_text (lit ''https://a'')" "0 \<notin> set (lit ''https://a'')" "typed_text (Latin1, lit ''k'')"
    "typed_text (Utf16Le, [0x4E01])"
    by (simp_all add: latin1_text_def lit_def is_scalar_def)
  from local_storage_recovered [OF crates sample_files_ok [OF chrome_log_ok] sample_fs_simps(1) log r texts]
  show ?thesis by simp
qed

text \<open>
  C9: recovery across files. A live namespace record gives a map id to a host in one file, an
  entry of that map stands in the same or another file, and these files are intact. Whatever
  the other files hold, as long as no live namespace record read from the directory names the
  map id for another host, decoding it for Session Storage finds the entry with its host, its
  script key, its value, its sequence number and its tombstone flag.
\<close>

theorem session_storage_recovered:
  assumes "crates_ok E compress" "files_ok E FS" "list_dir FS dir = Inr (map Inr names)"
    and "n1 \<in> set names" "read_file FS (entry_path dir n1) = Inr buf1"
      "holds E compress (entry_path dir n1) buf1 rs1" "ns \<in> set rs1"
    and "n2 \<in> set names" "read_file FS (entry_path dir n2) = Inr buf2"
      "holds E compress (entry_path dir n2) buf2 rs2" "r \<in> set rs2"
    and "scalars g" "scalars host" "dash \<notin> set g" "scalars mid" "scalars k" "dash \<notin> set mid"
      "rec_key ns = namespace_key g host" "rec_value ns = utf8_encode mid" "\<not> rec_deleted ns"
      "rec_key r = map_key mid k"
    and "read_dir E FS dir = Ok recs" "\<forall>x \<in> set recs. \<forall>h. host_link x = Some (mid, h) \<longrightarrow> h = host"
  shows "\<exists>ss. decode_session_storage E FS dir = Ok ss \<and>
    Session_Map mid (Some host) k (if rec_deleted r then empty_value else decode_session_value (rec_value r))
      (rec_seq r) (rec_deleted r) \<in> set ss"
  using assms by (rule session_recovered)

definition session_batches :: "(u64 \<times> op list) list" where
  "session_batches =
     [(2, [Put (map_key (lit ''7'') (lit ''k'')) [0x41, 0],
           Put (namespace_key (lit ''g'') (lit ''h'')) (utf8_encode (lit ''7''))])]"

definition session_log :: bytes where
  "session_log = write_log ref_env 0 (encoded session_batches) @ replicate 0 0"

lemma session_keys:
  "map_key (lit ''7'') (lit ''k'') = [0x6D, 0x61, 0x70, 0x2D, 0x37, 0x2D, 0x6B]"
  "namespace_key (lit ''g'') (lit ''h'') =
     [0x6E, 0x61, 0x6D, 0x65, 0x73, 0x70, 0x61, 0x63, 0x65, 0x2D, 0x67, 0x2D, 0x68]"
  "utf8_encode (lit ''7'') = [0x37]"
  by (simp_all add: map_key_def namespace_key_def MAP_PREFIX_def NAMESPACE_PREFIX_def lit_def
      utf8_char.simps byte_of_def)

lemma session_log_ok: "buffer_ok ref_env session_log"
proof -
  have "map length (encoded session_batches) = [41]"
    by (simp add: session_batches_def encoded_def encode_batch_def length_prefixed_def leb128_as_u64
        session_keys)
  then obtain b where "encoded session_batches = [b]" "length b = 41" by (auto simp: map_eq_Cons_conv)
  then have "length session_log = 48"
    by (simp add: session_log_def write_record_fits BLOCK_SIZE_def HEADER_SIZE_def)
  then show ?thesis by (simp add: ref_buffer)
qed

lemma session_holds:
  "holds ref_env (\<lambda>d. d) sample_path session_log (records_of sample_path session_batches)"
proof -
  have "counts_ok session_batches" by (simp add: counts_ok_def session_batches_def)
  from holds.log_file [OF sample_kinds(1) this, of ref_env "\<lambda>d. d" 0] show ?thesis
    by (simp add: session_log_def)
qed

theorem session_storage_recovered_witness:
  "\<exists>ss. decode_session_storage ref_env (sample_fs [log_name] session_log) sample_dir = Ok ss \<and>
     Session_Map (lit ''7'') (Some (lit ''h'')) (lit ''k'') (decode_session_value [0x41, 0]) 2 False \<in> set ss"
proof -
  let ?fs = "sample_fs [log_name] session_log"
  let ?rs = "records_of sample_path session_batches"
  define r where "r = \<lparr>rec_key = map_key (lit ''7'') (lit ''k''), rec_value = [0x41, 0], rec_seq = 2,
    rec_deleted = False, rec_origin = sample_path\<rparr>"
  define ns where "ns = \<lparr>rec_key = namespace_key (lit ''g'') (lit ''h''), rec_value = utf8_encode (lit ''7''),
    rec_seq = 3, rec_deleted = False, rec_origin = sample_path\<rparr>"
  have rs: "?rs = [r, ns]"
    by (simp add: records_of_def session_batches_def op_records_def saturating_add_u64_def as_u64_def r_def ns_def)
  have crates: "crates_ok ref_env (\<lambda>d. d)" by (simp add: crates_ok_def ref_core ref_facts)
  have log: "log_name \<in> set [log_name]" "read_file ?fs (entry_path sample_dir log_name) = Inr session_log"
    "holds ref_env (\<lambda>d. d) (entry_path sample_dir log_name) session_log [r, ns]"
    using session_holds by (simp_all add: sample_paths rs)
  have mem: "ns \<in> set [r, ns]" "r \<in> set [r, ns]" by simp_all
  have texts: "scalars (lit ''g'')" "scalars (lit ''h'')" "dash \<notin> set (lit ''g'')" "scalars (lit ''7'')"
    "scalars (lit ''k'')" "dash \<notin> set (lit ''7'')"
    by simp_all (simp_all add: lit_def)
  have keys: "rec_key ns = namespace_key (lit ''g'') (lit ''h'')" "rec_value ns = utf8_encode (lit ''7'')"
    "\<not> rec_deleted ns" "rec_key r = map_key (lit ''7'') (lit ''k'')"
    by (simp_all add: ns_def r_def)
  have "read_dir ref_env ?fs sample_dir = Ok (file_records ref_env ?fs sample_path)"
    using read_dir_names [OF ref_core sample_files_ok [OF session_log_ok] sample_fs_simps(1)]
    by (simp add: sample_paths)
  moreover have "file_records ref_env ?fs sample_path = [r, ns]"
    by (rule holds_records [OF crates _ session_log_ok]) (use session_holds in \<open>simp_all add: rs\<close>)
  ultimately have read: "read_dir ref_env ?fs sample_dir = Ok [r, ns]" by simp
  have "host_link ns = Some (lit ''7'', lit ''h'')"
    by (rule host_link_namespace [OF texts(1-4) keys(1-3)])
  moreover have "host_link r = None" by (simp add: host_link_def r_def session_keys starts_with_def NAMESPACE_PREFIX_def)
  ultimately have agree: "\<forall>x \<in> set [r, ns]. \<forall>h. host_link x = Some (lit ''7'', h) \<longrightarrow> h = lit ''h''" by simp
  from session_storage_recovered [OF crates sample_files_ok [OF session_log_ok] sample_fs_simps(1)
      log mem(1) log mem(2) texts keys read agree]
  show ?thesis by (simp add: r_def)
qed

text \<open>
  C26: the type of text. Whatever bytes the files hold, in every mode and format, everything a
  dump writes is a sequence of Unicode scalar values, as the type \<open>String\<close> of Rust demands: its
  UTF-8 encoding is valid and decodes to the dump. No lone surrogate, no stray byte of the
  evidence reaches the output.
\<close>

theorem dump_well_formed:
  assumes "quoter_ok q"
  shows "scalars (dump_text pb q m fmt recs) \<and>
    from_utf8 (utf8_encode (dump_text pb q m fmt recs)) = Some (dump_text pb q m fmt recs)"
  using dump_scalars [OF assms] dump_utf8 [OF assms] by blast

theorem dump_well_formed_witness:
  "scalars (dump_text (\<lambda>_. None) (\<lambda>s. s) Mode_Session Csv
     [\<lparr>rec_key = map_key (lit ''7'') (lit ''k''), rec_value = [0x00, 0xD8], rec_seq = 1, rec_deleted = False,
        rec_origin = sample_path\<rparr>])"
  using dump_well_formed [of "\<lambda>s. s"] by (simp add: quoter_ok_def)

section \<open>CSV\<close>

text \<open>A quoter with the documented behaviour: guard, then quote always.\<close>

definition guard :: "rstring \<Rightarrow> rstring" where
  "guard s = (if formula s then 39 # s else s)"

definition quote_always :: csv_quoter where
  "quote_always s = rfc_quote (guard s)"

lemma guard_formula: "formula_guard guard"
  by (simp add: formula_guard_def guard_def formula_def)

lemma quote_always_law: "csv_law quote_always guard"
proof -
  have "rest = [] \<or> hd rest = 44 \<Longrightarrow>
      read_quoted (concat (map (\<lambda>c. if c = 34 then [34, 34] else [c]) s) @ 34 # rest) = Some (s, rest)"
    for s rest
    by (induction s) (auto split: list.splits)
  then show ?thesis by (simp add: csv_law_def cell_reads_def quote_always_def rfc_quote_def read_cell_def)
qed

text \<open>
  C27: a CSV row has one cell for every column of the header, in every mode and for every kind
  of record, and no cell starts like a spreadsheet formula, whatever the evidence holds.
\<close>

theorem csv_rows_aligned:
  assumes "csv_law q san" "formula_guard san"
  shows "aligned_row raw_csv_header (raw_csv q r) \<and> aligned_row local_csv_header (local_csv q l) \<and>
    aligned_row session_csv_header (session_csv q s)"
  using raw_rows.row_safe [OF assms] local_rows.row_safe [OF assms] session_rows.row_safe [OF assms] by simp

theorem csv_rows_aligned_witness:
  "aligned_row local_csv_header (local_csv quote_always (Local_Meta [61, 44, 34, 10] 0 None 1 True))"
  using csv_rows_aligned [OF quote_always_law guard_formula] by blast

section \<open>Limits of the output\<close>

text \<open>
  C40: the JSONL output of Session Storage is not round-trippable. For any map id and script key
  there are two records that both decode to an entry of that map and key, whose values have
  different raw bytes, and whose lines are the same, since the line of an entry does not carry
  the raw bytes of a lossy value.
\<close>

theorem session_jsonl_not_injective:
  assumes "scalars mid" "scalars k" "dash \<notin> set mid"
  shows "\<exists>r r' val val' seq del.
    session_of hosts r = Session_Map mid (hosts mid) k val seq del \<and>
    session_of hosts r' = Session_Map mid (hosts mid) k val' seq del \<and>
    sv_raw val = rec_value r \<and> sv_raw val' = rec_value r' \<and> rec_value r \<noteq> rec_value r' \<and>
    session_jsonl (session_of hosts r) = session_jsonl (session_of hosts r')"
proof -
  define r :: "bytes \<Rightarrow> record_t" where
    "r v = \<lparr>rec_key = map_key mid k, rec_value = v, rec_seq = 1, rec_deleted = False,
       rec_origin = sample_path\<rparr>" for v
  have s: "session_of hosts (r v) = Session_Map mid (hosts mid) k (decode_session_value v) 1 False" for v
    using session_of_map [OF assms, of "r v" hosts] by (simp add: r_def)
  then have "session_jsonl (session_of hosts (r [0x41])) = session_jsonl (session_of hosts (r [0x42]))"
    by (simp only: session_jsonl.simps, simp add: decode_session_value_def decode_utf16le_def)
  moreover have "rec_value (r v) = v" for v by (simp add: r_def)
  ultimately show ?thesis
    using s decode_session_value_raw
    by (intro exI [of _ "r [0x41]"] exI [of _ "r [0x42]"] exI [of _ "decode_session_value [0x41]"]
        exI [of _ "decode_session_value [0x42]"] exI [of _ 1] exI [of _ False]) simp
qed

theorem session_jsonl_not_injective_witness:
  "\<exists>r r'. rec_value r \<noteq> rec_value r' \<and>
     session_jsonl (session_of (\<lambda>_. None) r) = session_jsonl (session_of (\<lambda>_. None) r')"
  using session_jsonl_not_injective [of "lit ''7''" "lit ''k''" "\<lambda>_. None"]
  by (auto simp: lit_def scalars_def is_scalar_def)

text \<open>In the text format only key and value are flattened: an origin with a line break splits the record.\<close>

lemma local_text_line_break: "10 \<in> set (local_text (Local_Data [10] empty_value empty_value 0 False))"
  by simp

end
