(* ===== verification/Test_Theorems.thy ===== *)
theory Test_Theorems
  imports Core_Tests Fuzz_Targets Cli_Theorems
begin

text \<open>
  The repository's own unit tests, those inside the sources, hold of the model: a check of the
  definitions against the expectations of their authors.
\<close>

text \<open>An environment whose decompressor refuses everything, as snap refuses the inputs of the tests.\<close>

definition strict_env :: core_env where
  "strict_env = ref_env\<lparr>decompress_len := (\<lambda>_. None), decompress_vec := (\<lambda>_. None)\<rparr>"

lemma strict_facts: "platform strict_env" "varint_leb128 strict_env" "snap_rejects strict_env"
  using ref_facts by (simp_all add: strict_env_def platform_def varint_leb128_def snap_rejects_def)

lemma quote_always_quoter: "apostrophe_quoter quote_always"
  by (auto simp: apostrophe_quoter_def quote_always_def guards_def guard_def)

text \<open>
  The program's unit tests, as far as they lie in the sources, hold of the model: the four
  of the byte cursor, the two of the errors and their messages, the three of the block reader,
  the five of the renderer and the one of the command line tool.
\<close>

theorem unit_tests_pass:
  assumes "platform E" "varint_leb128 E" "snap_rejects E" "apostrophe_quoter q"
    and "list_dir FS (Path [0x2F, 0x6E, 0x6F, 0x2F, 0x73, 0x75, 0x63, 0x68, 0x2F, 0x64, 0x69, 0x72]) = Inl e"
  shows "(read_varint_u32_overflows E \<and> read_varint_u32_accepts E \<and> read_length_prefixed_rejects E \<and>
      read_length_prefixed_reads E) \<and>
    (display_shows \<and> source_only_io) \<and>
    (undecodable_snappy_length E \<and> truncated_snappy_body E \<and> unknown_compression_type E) \<and>
    (csv_local_neutralizes q \<and> csv_session_neutralizes q \<and> raw_every_format q \<and>
      local_every_variant q \<and> session_every_variant q) \<and>
    clierror_display_and_source E FS"
  using bytes_tests [OF assms(1,2)] display_shows_holds source_only_io_holds
    block_tests [OF assms(1,3)] csv_local_neutralizes_holds [OF assms(4)]
    csv_session_neutralizes_holds [OF assms(4)] raw_every_format_holds [OF assms(4)]
    local_every_variant_holds [OF assms(4)] session_every_variant_holds [OF assms(4)]
    clierror_display_and_source_holds [OF assms(5)]
  by simp

theorem unit_tests_pass_witness:
  "unknown_compression_type strict_env \<and> csv_local_neutralizes quote_always \<and>
   clierror_display_and_source strict_env (sample_fs [] [])"
proof -
  have "list_dir (sample_fs [] []) (Path [0x2F, 0x6E, 0x6F, 0x2F, 0x73, 0x75, 0x63, 0x68, 0x2F, 0x64, 0x69, 0x72]) =
      Inl (Io_Error (lit ''not found''))"
    by (simp add: sample_fs_def sample_dir_def)
  from unit_tests_pass [OF strict_facts quote_always_quoter this] show ?thesis by simp
qed

end
