(* ===== verification/Spec2Isabelle.thy ===== *)
theory Spec2Isabelle
  imports Test_Theorems
begin

text \<open>
  A verification library for leveldb-forensic, a read-only reader of LevelDB directories that
  recovers what a live database would hide: old versions, tombstones, and what is left of
  damaged files. The program has three crates. leveldb-core turns the bytes of write-ahead logs
  and SSTables into raw records. leveldb-forensic decodes raw records into the Local Storage and
  Session Storage of Chrome. leveldb4n6 prints either as text, JSON lines or CSV. A run is one
  pipeline: \<open>read_dir\<close> lists a directory, calls \<open>parse_table\<close> or \<open>parse_log\<close> on each file by its
  extension, and concatenates the records in the order of the paths; \<open>run\<close> decodes them for the
  mode and hands them to a renderer, which writes lines to standard output.

  The order of the work was the order in which evidence flows: the two parsers, the directory
  reader, the decoders, the renderers, the tool, and then the composition of all of them.
\<close>

section \<open>Which theory models what\<close>

text \<open>
  Prelude: machine integers as words of their width, byte slices and the indexing of slices,
  where going out of range is the outcome \<open>Panic\<close>, and the type \<open>outcome\<close> of a Rust function:
  \<open>Ok\<close>, \<open>Err\<close>, \<open>Panic\<close>, or \<open>Diverge\<close> for a loop that is cut off. \<open>bind\<close> is the operator \<open>?\<close>.
  Rust_Text: strings as lists of code points, UTF-8 and UTF-16 as the standard library decodes
  them, lossy or strict, decimal and hex formatting.

  leveldb-core. Reader_Types: error.rs, record.rs, paths, and the environment \<open>core_env\<close>, which
  holds the size of \<open>usize\<close> and the external crates. A path is its bytes, which is what is shown
  of it; its components and their order are those of the standard library on Unix. Byte_Cursor: bytes.rs. Wal_Log: log.rs, both loops of
  \<open>parse_log\<close>, the reassembly of fragments, and the batch decoder. Sstable: sstable.rs, from the
  footer to \<open>parse_table\<close>. Reader_Lib: lib.rs over \<open>fs_env\<close>, what listing a directory and reading
  a file return.

  leveldb-forensic. Storage_Value: value.rs. Local_Storage: localstorage.rs and its entry points
  in lib.rs. Session_Storage: sessionstorage.rs and its entry points. Record_Decoder: the
  interface the two decoders share.

  leveldb4n6. Render: render.rs, one definition for each line format and the writing loops over
  an arbitrary writer. Cli: lib.rs and main.rs on parsed arguments. Json_Lines and Render_Lines:
  readers of JSON and CSV, against which the output is judged.

  Tests. Core_Tests and Render_Tests: the unit tests inside bytes.rs, error.rs, sstable.rs,
  render.rs and the lib.rs of the tool, as predicates on the model, all of which hold
  (Test_Theorems): a check of the definitions. Fuzz_Targets: the four harnesses of
  fuzz/fuzz_targets.
\<close>

section \<open>What the lemmas show\<close>

text \<open>
  The log. Wal_Reassembly gives \<open>parse_log\<close> an abstract form: cut the file into physical records,
  assemble the runs that are intact, decode the batches. Wal_Batch does the same for a batch.
  The refinement of one by the other holds on every buffer, so the parser is total. Wal_Recovery
  derives what that means for a damaged file: nothing is made up, nothing intact is lost, and
  the reader finds its way back at the next block. Wal_Writer defines the log format by a
  writer, and Wal_Commit the appending of batches to a file, so that reading a written log, a
  log with a preallocated tail, and a snapshot of a log that is being written can be stated.
  Wal_Machine tells the same loops as a transition system on control points and local variables:
  its invariant holds in every reachable configuration, it never gets stuck and always reaches
  the end. That its runs are the results of the recursive definitions ties the two together.

  The table. Sstable_Safety shows that no footer, handle, restart count or varint makes the
  parser panic or loop, and bounds what it allocates for keys. Table_Format defines the format by
  a writer (prefix sharing, restart arrays, compression, index, footer), which the parser
  inverts.

  The directory. Reader_Lib states the contract of a file parser as a locale, interpreted by both
  parsers, from which the result of \<open>read_dir\<close>, its errors, its independence of the order of
  listing, the origin of records and the confinement of damage follow. The order of paths is, in
  one directory, the byte order of the names.

  The decoders. Exact codecs are a locale, interpreted by Latin-1, UTF-16-LE and the typed
  values: a value is reported as clean exactly for the encodings of its text. For unprefixed
  session values the exact condition is proved, and what happens where it fails. Both decoders keep
  the number, order, sequence numbers, tombstones and keys of the records. A Session Storage map
  entry is joined to the host of the first live namespace record for its map id.

  The output. A line of JSON reads back as the members of the record, a CSV row fills the columns
  of its header and holds no formula, and everything written is well-formed text (Text_Wellformed).

  The composition. End_To_End describes files in the formats, and derives what a run prints for
  a directory of them, and what the web-storage decoders recover from the intact files of a
  directory, whatever the others hold.

  The theorems that are claims about the program stand, with their applications to concrete
  inputs, in Log_Theorems, Table_Theorems, Reader_Theorems, Storage_Theorems and Cli_Theorems.
  Reference_Env holds the concrete environment of the applications: a 64-bit target, a varint
  decoder of ten bytes, a checksum and a compressor that keep the laws below.
\<close>

section \<open>Bounds and fuel\<close>

text \<open>
  The inner loop of \<open>parse_log\<close> is a function with a termination proof: each round moves the
  position by a header at least. The outer loop gets the length of the buffer plus one as fuel,
  and each round consumes a byte at least, because \<open>block_start\<close> grows to \<open>block_end\<close>; the loop over
  the entries of a block gets the length of its body plus one, and each round consumes three
  bytes at least, because a varint is never empty. That the fuel suffices is part of the totality
  theorems, which exclude \<open>Diverge\<close>. Everything else recurses on its data.

  A plain addition that exceeds \<open>usize\<close> is \<open>Panic\<close>. \<open>platform\<close> allows 32-bit and 64-bit targets, and
  \<open>buffer_ok\<close> is the bound of \<open>isize::MAX\<close> on the length of any Rust slice.
\<close>

section \<open>What is assumed of code outside the repository\<close>

text \<open>
  integer-encoding: \<open>varint_progress\<close>, a decoded varint is not empty and not longer than its input;
  \<open>varint_leb128\<close>, it reads back LEB128; \<open>varint_prefix_stable\<close>, it looks at no byte past its end.
  snap: \<open>snappy_length\<close>, a decompressed block has the announced length; \<open>snappy_inverts\<close>, it undoes
  some compressor on blocks up to the limit the code accepts, 256 MiB; \<open>snap_rejects\<close>, it refuses the two broken inputs of the unit tests. crc32c is
  arbitrary throughout. jsonguard: \<open>csv_law\<close> and \<open>formula_guard\<close>, a quoted string is one cell that
  reads back as a string that is no formula; \<open>quoter_ok\<close>, it makes text of text;
  \<open>apostrophe_quoter\<close>, the guard is an apostrophe. protobuf-forensic-core is arbitrary throughout.
  \<open>writer_ok\<close> is the contract of \<open>write_all\<close>: success appends the text, failure a prefix of it.
  Each theorem names those it uses, and each is applied where they hold.
\<close>

section \<open>Not modelled\<close>

text \<open>
  The parsing of arguments is generated by clap. Errors of the last flush and of writing to
  standard error are dropped, as the code drops them. An I/O error is its message, as the program
  never looks at its kind. The capacity of vectors is not modelled, so neither is running out of
  memory; the sizes of keys, values and of all records of a log are bounded by the input instead,
  and the size of a decompressed block by the limit the code checks. A line is written in one
  piece, where \<open>writeln!\<close> may write several; the contract of the writer covers any prefix. The
  integration tests read files, drive the binary, or compare with other tools, and are not
  modelled; nor are the documentation and the supply-chain configuration.
\<close>

end
